theory Spec2Isabelle
  imports Main
begin

section \<open>JavaScript values and errors\<close>

text \<open>
  The endpoint declarations handed to \<open>validateEndpointObject\<close> are untyped JavaScript
  values. Only the distinctions the source tests are kept: the result of \<open>typeof\<close>,
  truthiness, strict equality with a string literal and member access. Numbers are
  integers (no \<open>NaN\<close>); an object is the ordered list of its own properties.

  Thrown values are \<open>Error(msg)\<close> objects created by the program (the JSON text the
  source interpolates into some messages is left out of the message),
  the \<open>TypeError\<close> of a member access on \<open>null\<close>, and the error objects of the remote
  API, of which only the \<open>code\<close> field is read.
\<close>

datatype jsval = JUndefined | JNull | JBool bool | JNum int | JStr string
  | JObj "(string \<times> jsval) list"

datatype error = Error string | TypeError | AwsError string

fun typeof :: "jsval \<Rightarrow> string" where
  "typeof JUndefined = ''undefined''"
| "typeof JNull = ''object''"
| "typeof (JBool b) = ''boolean''"
| "typeof (JNum n) = ''number''"
| "typeof (JStr s) = ''string''"
| "typeof (JObj fs) = ''object''"

fun truthy :: "jsval \<Rightarrow> bool" where
  "truthy JUndefined = False"
| "truthy JNull = False"
| "truthy (JBool b) = b"
| "truthy (JNum n) = (n \<noteq> 0)"
| "truthy (JStr s) = (s \<noteq> [])"
| "truthy (JObj fs) = True"

fun getProp :: "jsval \<Rightarrow> string \<Rightarrow> error + jsval" where
  "getProp JUndefined k = Inl TypeError"
| "getProp JNull k = Inl TypeError"
| "getProp (JObj fs) k = Inr (case map_of fs k of None \<Rightarrow> JUndefined | Some v \<Rightarrow> v)"
| "getProp v k = Inr JUndefined"

fun own_props :: "jsval \<Rightarrow> (string \<times> jsval) list" where
  "own_props (JObj fs) = fs"
| "own_props v = []"

fun assign :: "string \<Rightarrow> jsval \<Rightarrow> (string \<times> jsval) list \<Rightarrow> (string \<times> jsval) list" where
  "assign k v [] = [(k, v)]"
| "assign k v (f # fs) = (if fst f = k then (k, v) # fs else f # assign k v fs)"

section \<open>String operations\<close>

text \<open>
  Strings are byte strings; \<open>toUpperCase\<close> maps the ASCII letters and leaves every other
  byte alone. \<open>substring\<close> clamps both indices to the length and swaps them when
  they are out of order, as \<open>String.prototype.substring\<close> does.
\<close>

definition upper_char :: "char \<Rightarrow> char" where
  "upper_char c =
     (case map_of (zip ''abcdefghijklmnopqrstuvwxyz'' ''ABCDEFGHIJKLMNOPQRSTUVWXYZ'') c of
        None \<Rightarrow> c | Some u \<Rightarrow> u)"

definition toUpperCase :: "string \<Rightarrow> string" where
  "toUpperCase s = map upper_char s"

definition startsWith :: "string \<Rightarrow> string \<Rightarrow> bool" where
  "startsWith s p = (take (length p) s = p)"

definition endsWith :: "string \<Rightarrow> string \<Rightarrow> bool" where
  "endsWith s p = (length p \<le> length s \<and> drop (length s - length p) s = p)"

definition substring :: "string \<Rightarrow> nat \<Rightarrow> nat \<Rightarrow> string" where
  "substring s a b =
     (let a' = min a (length s); b' = min b (length s)
      in take (max a' b' - min a' b') (drop (min a' b') s))"

section \<open>Endpoint validation (lines 145-190)\<close>

definition validMethods :: "string list" where
  "validMethods = [''GET'', ''POST'', ''PUT'', ''DELETE'', ''PATCH'', ''HEAD'', ''OPTIONS'', ''ANY'']"

text \<open>
  \<open>normalizedPath\<close> is the block of lines 174-181: a missing leading slash is added,
  then one trailing slash is cut off; the root path is left alone.
\<close>

definition normalizedPath :: "string \<Rightarrow> string" where
  "normalizedPath path =
     (if path \<noteq> ''/'' then
        (let p1 = (if \<not> startsWith path ''/'' then ''/'' @ path else path)
         in if endsWith p1 ''/'' then substring p1 0 (length p1 - 1) else p1)
      else path)"

definition endpointUrl :: "string \<Rightarrow> string \<Rightarrow> string \<Rightarrow> string \<Rightarrow> string" where
  "endpointUrl apiId region stage path =
     ''https://'' @ apiId @ ''.execute-api.'' @ region @ ''.amazonaws.com/'' @ stage @ path"

text \<open>
  The checks run in the order of the source. The source assigns the normalised path to
  \<open>endpoint.path\<close> before spreading \<open>endpoint\<close> and the three computed fields
  (\<open>url\<close>, \<open>path\<close>, \<open>method\<close>, in this order) into the result.
\<close>

definition validateEndpointObject :: "jsval \<Rightarrow> string \<Rightarrow> string \<Rightarrow> string \<Rightarrow> error + jsval" where
  "validateEndpointObject endpoint apiId stage region =
     (if typeof endpoint \<noteq> ''object'' then Inl (Error ''endpoint must be an object'')
      else (case getProp endpoint ''method'' of
        Inl e \<Rightarrow> Inl e
      | Inr method \<Rightarrow>
         (if \<not> truthy method then Inl (Error ''missing method property for endpoint'')
          else (case getProp endpoint ''path'' of
            Inl e \<Rightarrow> Inl e
          | Inr path \<Rightarrow>
             (if path = JStr [] then
                Inl (Error ''endpoint path cannot be an empty string for endpoint'')
              else if \<not> truthy path then Inl (Error ''missing path property for endpoint'')
              else (case method of
                JStr m \<Rightarrow>
                 (case path of
                    JStr p \<Rightarrow>
                     (if toUpperCase m \<notin> set validMethods then
                        Inl (Error ''invalid method for endpoint'')
                      else
                        (let p' = normalizedPath p;
                             mutated = assign ''path'' (JStr p') (own_props endpoint)
                         in Inr (JObj
                             (assign ''method'' (JStr (toUpperCase m))
                               (assign ''path'' (JStr p')
                                 (assign ''url'' (JStr (endpointUrl apiId region stage p'))
                                    mutated))))))
                  | _ \<Rightarrow> Inl (Error ''invalid endpoint''))
              | _ \<Rightarrow> Inl (Error ''invalid endpoint'')))))))"

text \<open>The spec's scenario: the declared path \<open>items/\<close>.\<close>

definition ex_items :: jsval where
  "ex_items = JObj [(''method'', JStr ''get''), (''path'', JStr ''items/'')]"

definition ex_items_valid :: jsval where
  "ex_items_valid = JObj [(''method'', JStr ''GET''), (''path'', JStr ''/items''),
     (''url'', JStr ''https://api.execute-api.eu-west-1.amazonaws.com/dev/items'')]"

section \<open>The remote control plane\<close>

text \<open>
  The source receives the API Gateway client \<open>apig\<close> and the Lambda client
  \<open>lambda\<close> as arguments. A client is modelled as a deterministic transition function
  on an arbitrary remote state: it answers a request with an error or a response and
  yields the next remote state. Of an error object only the \<open>code\<close> is read.
\<close>

fun code :: "error \<Rightarrow> string option" where
  "code (AwsError c) = Some c"
| "code (Error msg) = None"
| "code TypeError = None"

text \<open>\<open>throw Error(e)\<close> wraps a caught error into a fresh \<open>Error\<close>, which has no \<open>code\<close>.\<close>

fun wrapError :: "error \<Rightarrow> error" where
  "wrapError (AwsError c) = Error c"
| "wrapError (Error msg) = Error (''Error: '' @ msg)"
| "wrapError TypeError = Error ''TypeError''"

record resource =
  resource_id :: string
  resource_path :: string
  parentId :: "string option"
  resourceMethods :: "string list"

record integrationParams =
  ip_httpMethod :: "string option"
  ip_resourceId :: "string option"
  ip_restApiId :: string
  ip_type :: string
  integrationHttpMethod :: "string option"
  requestParameters :: "(string \<times> string) list"
  uri :: "string option"

record permissionsParams =
  Action :: string
  FunctionName :: "string option"
  Principal :: string
  SourceArn :: string
  StatementId :: string

text \<open>
  The requests the modelled functions issue. A field that the source fills from an
  endpoint property is optional, since the property may be \<open>undefined\<close>. The first
  argument is always \<open>restApiId\<close>; \<open>UpdateMethod\<close> carries the \<open>replace\<close> patch
  operations as (path, value) pairs.
\<close>

datatype request =
    GetResources string
  | GetMethod string string "string option"
  | CreateResource string "string option" string
  | PutIntegration integrationParams
  | DeleteMethod string "string option" "string option"
  | DeleteResource string "string option"
  | UpdateMethod string "string option" "string option" "(string \<times> string) list"
  | DeleteAuthorizer string string
  | AddPermission permissionsParams

datatype response = Resources "resource list" | Created resource | Done

type_synonym 's client = "request \<Rightarrow> 's \<Rightarrow> (error + response) \<times> 's"

text \<open>
  The world threaded through the program: the remote state and the trace of what the
  program did to it, one \<open>Call\<close> per attempt of a request (with its outcome) and one
  \<open>Sleep\<close> per timed wait (in milliseconds).
\<close>

datatype event = Call request "error + response" | Sleep nat

record 's world =
  remote :: 's
  trace :: "event list"

type_synonym ('s, 'a) action = "'s world \<Rightarrow> (error + 'a) \<times> 's world"

definition call :: "'s client \<Rightarrow> request \<Rightarrow> ('s, response) action" where
  "call client req w =
     (case client req (remote w) of
        (r, s') \<Rightarrow> (r, w\<lparr>remote := s', trace := trace w @ [Call req r]\<rparr>))"

definition sleep :: "nat \<Rightarrow> 's world \<Rightarrow> 's world" where
  "sleep ms w = w\<lparr>trace := trace w @ [Sleep ms]\<rparr>"

section \<open>The retry wrapper (lines 4-24)\<close>

text \<open>
  \<open>pRetry\<close> is the npm package p-retry, which is not part of the repository. It is
  modelled after its documented contract: the input is run once and then retried up to
  \<open>retries\<close> more times; the wait before the \<open>k\<close>-th retry is
  \<open>minTimeout * factor ^ (k - 1)\<close> (no randomisation and no upper limit by default);
  a rejection with an \<open>AbortError\<close> stops at once and rejects with the wrapped error;
  when no retry is left the promise rejects with the last rejection.
\<close>

datatype rejection = AbortError error | Rejected error

record options =
  retries :: nat
  minTimeout :: nat
  factor :: nat

fun pRetry_from ::
  "('s world \<Rightarrow> (rejection + 'a) \<times> 's world) \<Rightarrow> options \<Rightarrow> nat \<Rightarrow> nat \<Rightarrow> ('s, 'a) action" where
  "pRetry_from input opts 0 k w =
     (case input w of
        (Inr v, w') \<Rightarrow> (Inr v, w')
      | (Inl (AbortError e), w') \<Rightarrow> (Inl e, w')
      | (Inl (Rejected e), w') \<Rightarrow> (Inl e, w'))"
| "pRetry_from input opts (Suc n) k w =
     (case input w of
        (Inr v, w') \<Rightarrow> (Inr v, w')
      | (Inl (AbortError e), w') \<Rightarrow> (Inl e, w')
      | (Inl (Rejected e), w') \<Rightarrow>
          pRetry_from input opts n (Suc k) (sleep (minTimeout opts * factor opts ^ k) w'))"

definition pRetry ::
  "('s world \<Rightarrow> (rejection + 'a) \<times> 's world) \<Rightarrow> options \<Rightarrow> ('s, 'a) action" where
  "pRetry input opts = pRetry_from input opts (retries opts) 0"

text \<open>
  The optional second argument of \<open>retry\<close> overrides the three defaults field by field
  (\<open>{retries: 5, minTimeout: 1000, factor: 2, ...opts}\<close>).
\<close>

record opts =
  opt_retries :: "nat option"
  opt_minTimeout :: "nat option"
  opt_factor :: "nat option"

definition no_opts :: opts where
  "no_opts = \<lparr>opt_retries = None, opt_minTimeout = None, opt_factor = None\<rparr>"

definition retry :: "('s, 'a) action \<Rightarrow> opts \<Rightarrow> ('s, 'a) action" where
  "retry fn opts =
     pRetry
       (\<lambda>w. case fn w of
               (Inr v, w') \<Rightarrow> (Inr v, w')
             | (Inl error, w') \<Rightarrow>
                 (if code error \<noteq> Some ''TooManyRequestsException''
                  then (Inl (AbortError error), w')
                  else (Inl (Rejected error), w')))
       \<lparr>retries = (case opt_retries opts of None \<Rightarrow> 5 | Some n \<Rightarrow> n),
        minTimeout = (case opt_minTimeout opts of None \<Rightarrow> 1000 | Some n \<Rightarrow> n),
        factor = (case opt_factor opts of None \<Rightarrow> 2 | Some n \<Rightarrow> n)\<rparr>"

text \<open>
  \<open>throttleAwsRequestRequest\<close> (lines 52-60) queues the retried request and resolves or
  rejects with its outcome. The queue decides when the request runs (see the scheduler
  below); with at most one request in flight the requests run one after the other in
  the order of submission, so the outcome is that of \<open>retry\<close> run at the request's turn.
\<close>

definition throttleAwsRequestRequest :: "('s, 'a) action \<Rightarrow> ('s, 'a) action" where
  "throttleAwsRequestRequest awsRequestFn = retry awsRequestFn no_opts"

section \<open>The scheduler (lines 26-60)\<close>

text \<open>
  The module-level state is the queue, the counter \<open>concurrency\<close> and the timer handle
  \<open>timeout\<close> (\<open>None\<close> for \<open>undefined\<close> and \<open>null\<close>; \<open>Some t\<close> for the handle of a
  timer set to fire at time \<open>t\<close>). Three more fields instrument the model: the clock in
  milliseconds, the operations that were started and have not completed, and the times
  at which operations were started.
\<close>

definition MAX_CONCURRENCY :: int where
  "MAX_CONCURRENCY = 1"

definition MIN_DELAY :: nat where
  "MIN_DELAY = 200"

record 'op scheduler =
  requestQueue :: "'op list"
  concurrency :: int
  timeout :: "nat option"
  clock :: nat
  inflight :: "'op list"
  dispatched :: "nat list"

definition initial :: "nat \<Rightarrow> 'op scheduler" where
  "initial t0 =
     \<lparr>requestQueue = [], concurrency = 0, timeout = None, clock = t0, inflight = [],
      dispatched = []\<rparr>"

definition processNextQueueElement :: "'op scheduler \<Rightarrow> 'op scheduler" where
  "processNextQueueElement s =
     (if requestQueue s = [] then s\<lparr>timeout := None\<rparr>
      else
       (let s1 = (if concurrency s < MAX_CONCURRENCY
                  then s\<lparr>concurrency := concurrency s + 1,
                         requestQueue := tl (requestQueue s),
                         inflight := inflight s @ [hd (requestQueue s)],
                         dispatched := dispatched s @ [clock s]\<rparr>
                  else s)
        in s1\<lparr>timeout := Some (clock s + MIN_DELAY)\<rparr>))"

text \<open>
  The body of \<open>throttleAwsRequestRequest\<close> as it acts on the scheduler: the operation
  is pushed and, when no timer handle is held, the queue is processed at once.
\<close>

definition submit :: "'op \<Rightarrow> 'op scheduler \<Rightarrow> 'op scheduler" where
  "submit operation s =
     (let s1 = s\<lparr>requestQueue := requestQueue s @ [operation]\<rparr>
      in if timeout s1 = None then processNextQueueElement s1 else s1)"

text \<open>The callback \<open>concurrency--\<close>, run when a started operation has completed.\<close>

definition completed :: "'op \<Rightarrow> 'op scheduler \<Rightarrow> 'op scheduler" where
  "completed operation s = s\<lparr>concurrency := concurrency s - 1, inflight := remove1 operation (inflight s)\<rparr>"

text \<open>
  What can happen to the scheduler. Callbacks run one at a time, to completion. A
  submission can come at any time; the timer callback runs when a timer is held and
  its time has come, not earlier; a started operation completes at some later point;
  time passes. \<open>step\<close> is \<open>None\<close> when the event cannot happen in the state.
\<close>

datatype 'op occurrence = Submit 'op | Fire | Complete 'op | Tick nat

fun step :: "'op occurrence \<Rightarrow> 'op scheduler \<Rightarrow> 'op scheduler option" where
  "step (Submit operation) s = Some (submit operation s)"
| "step Fire s =
     (case timeout s of
        None \<Rightarrow> None
      | Some t \<Rightarrow> if t \<le> clock s then Some (processNextQueueElement s) else None)"
| "step (Complete operation) s =
     (if operation \<in> set (inflight s) then Some (completed operation s) else None)"
| "step (Tick d) s = Some (s\<lparr>clock := clock s + d\<rparr>)"

fun run :: "'op occurrence list \<Rightarrow> 'op scheduler \<Rightarrow> 'op scheduler option" where
  "run [] s = Some s"
| "run (ev # evs) s = (case step ev s of None \<Rightarrow> None | Some s' \<Rightarrow> run evs s')"

text \<open>Consecutive dispatch times are at least \<open>MIN_DELAY\<close> apart.\<close>

fun spaced :: "nat list \<Rightarrow> bool" where
  "spaced [] = True"
| "spaced [t] = True"
| "spaced (t1 # t2 # ts) = (t1 + MIN_DELAY \<le> t2 \<and> spaced (t2 # ts))"

text \<open>A sample run of three operations.\<close>

definition busy_run :: "nat occurrence list" where
  "busy_run =
     [Submit 1, Submit 2, Tick 150, Complete 1, Tick 50, Fire, Tick 200, Fire, Complete 2,
      Tick 5, Submit 3]"

section \<open>Endpoints and resource lookup\<close>

text \<open>
  An endpoint as the reconciliation functions read it: every property is optional (the
  parent endpoint built by \<open>createPath\<close> has a \<open>path\<close> only) and a string when
  present (\<open>method\<close>, \<open>id\<close> and \<open>function\<close> carry the prefix \<open>endpoint_\<close>).
  \<open>truthy_str\<close> is JavaScript truthiness of such a property.
\<close>

record endpoint =
  endpoint_method :: "string option"
  path :: "string option"
  endpoint_id :: "string option"
  authorizerId :: "string option"
  endpoint_function :: "string option"
  proxyURI :: "string option"
  greedyPath :: "string option"

fun truthy_str :: "string option \<Rightarrow> bool" where
  "truthy_str None = False"
| "truthy_str (Some s) = (s \<noteq> [])"

fun str_prop :: "jsval \<Rightarrow> string \<Rightarrow> string option" where
  "str_prop (JObj fs) k = (case map_of fs k of Some (JStr s) \<Rightarrow> Some s | _ \<Rightarrow> None)"
| "str_prop v k = None"

text \<open>The typed view of a declared endpoint object, used once it has been validated.\<close>

definition endpoint_of :: "jsval \<Rightarrow> endpoint" where
  "endpoint_of v =
     \<lparr>endpoint_method = str_prop v ''method'', path = str_prop v ''path'',
      endpoint_id = str_prop v ''id'', authorizerId = str_prop v ''authorizerId'',
      endpoint_function = str_prop v ''function'', proxyURI = str_prop v ''proxyURI'',
      greedyPath = str_prop v ''greedyPath''\<rparr>"

text \<open>
  \<open>getPathId\<close> (lines 89-110). Without an endpoint it returns the id of the root
  resource and fails with a \<open>TypeError\<close> when the listing has none; with an endpoint
  it returns the id of the resource with the endpoint's path, or \<open>null\<close> (\<open>None\<close>).
\<close>

definition getPathId :: "'s client \<Rightarrow> string \<Rightarrow> endpoint option \<Rightarrow> ('s, string option) action" where
  "getPathId apig apiId endpoint w =
     (case throttleAwsRequestRequest (call apig (GetResources apiId)) w of
        (Inl e, w') \<Rightarrow> (Inl e, w')
      | (Inr resourcesResponse, w') \<Rightarrow>
         (case resourcesResponse of
            Resources existingEndpoints \<Rightarrow>
             (case endpoint of
                None \<Rightarrow>
                 (case find (\<lambda>existingEndpoint. resource_path existingEndpoint = ''/'')
                         existingEndpoints of
                    None \<Rightarrow> (Inl TypeError, w')
                  | Some root \<Rightarrow> (Inr (Some (resource_id root)), w'))
              | Some ep \<Rightarrow>
                 (case find (\<lambda>existingEndpoint. Some (resource_path existingEndpoint) = path ep)
                         existingEndpoints of
                    None \<Rightarrow> (Inr None, w')
                  | Some endpointFound \<Rightarrow> (Inr (Some (resource_id endpointFound)), w')))
          | _ \<Rightarrow> (Inl TypeError, w')))"

text \<open>
  \<open>endpointExists\<close> (lines 112-133) returns \<open>true\<close>, \<open>false\<close> or, when the catch
  block falls through, \<open>undefined\<close> (\<open>None\<close>).
\<close>

definition endpointExists :: "'s client \<Rightarrow> string \<Rightarrow> endpoint \<Rightarrow> ('s, bool option) action" where
  "endpointExists apig apiId endpoint w =
     (case getPathId apig apiId (Some endpoint) w of
        (Inl e, w1) \<Rightarrow> (Inl e, w1)
      | (Inr resourceId, w1) \<Rightarrow>
         (case resourceId of
            None \<Rightarrow> (Inr (Some False), w1)
          | Some rid \<Rightarrow>
             (if rid = [] then (Inr (Some False), w1)
              else
               (case throttleAwsRequestRequest
                       (call apig (GetMethod apiId rid (endpoint_method endpoint))) w1 of
                  (Inr r, w2) \<Rightarrow> (Inr (Some True), w2)
                | (Inl e, w2) \<Rightarrow>
                   (if code e = Some ''NotFoundException'' then (Inr (Some False), w2)
                    else (Inr None, w2))))))"

record state =
  state_endpoints :: "endpoint list option"

definition myEndpoint :: "state \<Rightarrow> endpoint \<Rightarrow> bool" where
  "myEndpoint st endpoint =
     (case state_endpoints st of
        None \<Rightarrow> False
      | Some es \<Rightarrow>
         (case find (\<lambda>e. endpoint_method e = endpoint_method endpoint \<and> path e = path endpoint) es of
            None \<Rightarrow> False
          | Some e \<Rightarrow> True))"

text \<open>\<open>validateEndpoint\<close> (lines 192-204).\<close>

definition validateEndpoint ::
  "'s client \<Rightarrow> string \<Rightarrow> jsval \<Rightarrow> state \<Rightarrow> string \<Rightarrow> string \<Rightarrow> ('s, jsval) action" where
  "validateEndpoint apig apiId endpoint st stage region w =
     (case validateEndpointObject endpoint apiId stage region of
        Inl e \<Rightarrow> (Inl e, w)
      | Inr validatedEndpoint \<Rightarrow>
         (case endpointExists apig apiId (endpoint_of validatedEndpoint) w of
            (Inl e, w1) \<Rightarrow> (Inl e, w1)
          | (Inr ex, w1) \<Rightarrow>
             (if ex = Some True then
                (if \<not> myEndpoint st (endpoint_of validatedEndpoint) then
                   (Inl (Error ''endpoint already exists in provider''), w1)
                 else (Inr validatedEndpoint, w1))
              else (Inr validatedEndpoint, w1))))"

section \<open>Path creation (lines 216-243)\<close>

text \<open>\<open>split\<close> and \<open>join\<close> of JavaScript strings and arrays, on one separator.\<close>

fun split :: "char \<Rightarrow> string \<Rightarrow> string list" where
  "split c [] = [[]]"
| "split c (x # xs) =
     (if x = c then [] # split c xs
      else (x # hd (split c xs)) # tl (split c xs))"

fun join :: "char \<Rightarrow> string list \<Rightarrow> string" where
  "join c [] = []"
| "join c [x] = x"
| "join c (x # y # ys) = x @ c # join c (y # ys)"

definition path_only :: "string \<Rightarrow> endpoint" where
  "path_only p =
     \<lparr>endpoint_method = None, path = Some p, endpoint_id = None, authorizerId = None,
      endpoint_function = None, proxyURI = None, greedyPath = None\<rparr>"

definition created_id :: "response \<Rightarrow> string option" where
  "created_id r = (case r of Created res \<Rightarrow> Some (resource_id res) | _ \<Rightarrow> None)"
lemma split_not_Nil [simp]: "split c s \<noteq> []"
  by (induction s) auto

lemma join_Cons: "xs \<noteq> [] \<Longrightarrow> join c (x # xs) = x @ c # join c xs"
  by (cases xs) auto

lemma join_split: "join c (split c s) = s"
proof (induction s)
  case Nil show ?case by simp
next
  case (Cons x xs)
  show ?case
  proof (cases "x = c")
    case True with Cons show ?thesis by (simp add: join_Cons)
  next
    case False
    obtain y ys where sp: "split c xs = y # ys" by (cases "split c xs") auto
    with Cons have "join c (y # ys) = xs" by simp
    with False sp show ?thesis by (cases ys) auto
  qed
qed

lemma join_snoc: "xs \<noteq> [] \<Longrightarrow> join c (xs @ [x]) = join c xs @ c # x"
  by (induction xs rule: join.induct) auto

lemma length_join_butlast:
  assumes "join c (butlast xs) \<noteq> []"
  shows "length (join c (butlast xs)) < length (join c xs)"
proof (cases xs rule: rev_cases)
  case Nil with assms show ?thesis by simp
next
  case (snoc ys y)
  with assms have "ys \<noteq> []" by auto
  with snoc show ?thesis by (simp add: join_snoc)
qed

lemma parent_path_shorter:
  "join c (butlast (split c p)) \<noteq> [] \<Longrightarrow> length (join c (butlast (split c p))) < length p"
  using length_join_butlast [of c "split c p"] by (simp add: join_split)

function createPath :: "'s client \<Rightarrow> string \<Rightarrow> endpoint \<Rightarrow> ('s, string option) action" where
  "createPath apig apiId endpoint w =
     (case getPathId apig apiId (Some endpoint) w of
        (Inl e, w1) \<Rightarrow> (Inl e, w1)
      | (Inr pathId, w1) \<Rightarrow>
         (if truthy_str pathId then (Inr pathId, w1)
          else
           (case path endpoint of
              None \<Rightarrow> (Inl TypeError, w1)
            | Some p \<Rightarrow>
               (let pathParts = split CHR ''/'' p;
                    pathPart = last pathParts;
                    parentPath = join CHR ''/'' (butlast pathParts)
                in
                 (case (if parentPath = [] then getPathId apig apiId None w1
                        else createPath apig apiId (path_only parentPath) w1) of
                    (Inl e, w2) \<Rightarrow> (Inl e, w2)
                  | (Inr parentId', w2) \<Rightarrow>
                     (case throttleAwsRequestRequest
                             (call apig (CreateResource apiId parentId' pathPart)) w2 of
                        (Inl e, w3) \<Rightarrow> (Inl e, w3)
                      | (Inr createdPath, w3) \<Rightarrow> (Inr (created_id createdPath), w3)))))))"
  by pat_completeness auto
termination
  by (relation "measure (\<lambda>(apig, apiId, endpoint, w).
        case path endpoint of None \<Rightarrow> 0 | Some p \<Rightarrow> length p)")
     (auto simp add: path_only_def parent_path_shorter)

declare createPath.simps [simp del]

section \<open>Integrations (lines 318-381)\<close>

text \<open>
  Indexing an array out of range yields \<open>undefined\<close>, which a template literal prints
  as the text \<open>undefined\<close>.
\<close>

definition js_index :: "string list \<Rightarrow> nat \<Rightarrow> string option" where
  "js_index xs i = (if i < length xs then Some (xs ! i) else None)"

fun template :: "string option \<Rightarrow> string" where
  "template None = ''undefined''"
| "template (Some s) = s"

definition integrationParams_of :: "string \<Rightarrow> endpoint \<Rightarrow> integrationParams" where
  "integrationParams_of apiId endpoint =
     (let isLambda = truthy_str (endpoint_function endpoint);
          region = (if isLambda
                    then js_index (split CHR '':'' (the (endpoint_function endpoint))) 3
                    else None)
      in \<lparr>ip_httpMethod = endpoint_method endpoint,
          ip_resourceId = endpoint_id endpoint,
          ip_restApiId = apiId,
          ip_type = (if isLambda then ''AWS_PROXY'' else ''HTTP_PROXY''),
          integrationHttpMethod = (if isLambda then Some ''POST'' else endpoint_method endpoint),
          requestParameters =
            (''integration.request.header.Accept-Encoding'', [CHR 0x27] @ ''identity'' @ [CHR 0x27])
            # (if truthy_str (proxyURI endpoint) \<and> truthy_str (greedyPath endpoint)
               then [(''integration.request.path.'' @ template (greedyPath endpoint),
                      ''method.request.path.'' @ template (greedyPath endpoint))]
               else []),
          uri = (if isLambda
                 then Some (''arn:aws:apigateway:'' @ template region
                        @ '':lambda:path/2015-03-31/functions/''
                        @ template (endpoint_function endpoint) @ ''/invocations'')
                 else proxyURI endpoint)\<rparr>)"

definition integration_permissionsParams :: "string \<Rightarrow> endpoint \<Rightarrow> permissionsParams" where
  "integration_permissionsParams apiId endpoint =
     (let parts = split CHR '':'' (the (endpoint_function endpoint));
          functionName = js_index parts 6;
          accountId = js_index parts 4;
          region = js_index parts 3
      in \<lparr>Action = ''lambda:InvokeFunction'',
          FunctionName = functionName,
          Principal = ''apigateway.amazonaws.com'',
          SourceArn = ''arn:aws:execute-api:'' @ template region @ '':'' @ template accountId
                        @ '':'' @ apiId @ ''/*/*'',
          StatementId = template functionName @ ''-'' @ apiId\<rparr>)"

text \<open>
  \<open>createIntegration\<close> calls itself after a conflict, and nothing bounds the number of
  conflicts the remote may answer with: the function is partial, \<open>None\<close> standing for
  a run that never returns. \<open>lambda.addPermission\<close> is called directly, outside the
  throttled queue and without retry.
\<close>

partial_function (option) createIntegration ::
  "'s client \<Rightarrow> 's client \<Rightarrow> string \<Rightarrow> endpoint \<Rightarrow> 's world
     \<Rightarrow> ((error + endpoint) \<times> 's world) option" where
  "createIntegration apig lambda apiId endpoint w =
     (case throttleAwsRequestRequest
             (call apig (PutIntegration (integrationParams_of apiId endpoint))) w of
        (Inl e, w1) \<Rightarrow>
          (if code e = Some ''ConflictException''
           then createIntegration apig lambda apiId endpoint (sleep 2000 w1)
           else Some (Inl (wrapError e), w1))
      | (Inr r, w1) \<Rightarrow>
          (if truthy_str (endpoint_function endpoint) then
             (case call lambda (AddPermission (integration_permissionsParams apiId endpoint)) w1 of
                (Inl e, w2) \<Rightarrow>
                  (if code e \<noteq> Some ''ResourceConflictException''
                   then Some (Inl (wrapError e), w2)
                   else Some (Inr endpoint, w2))
              | (Inr r2, w2) \<Rightarrow> Some (Inr endpoint, w2))
           else Some (Inr endpoint, w1)))"

section \<open>Removal (lines 403-476 and 544-605)\<close>

text \<open>
  \<open>Promise.all\<close> over tasks that each submit a single throttled request when they are
  started: the queue runs the requests in the order of submission, every one of them is
  executed whatever the others answer, and the combined promise rejects with the
  rejection that comes first.
\<close>

fun promise_all :: "('s, 'a) action list \<Rightarrow> ('s, 'a list) action" where
  "promise_all [] w = (Inr [], w)"
| "promise_all (t # ts) w =
     (case t w of
        (r, w1) \<Rightarrow>
          (case promise_all ts w1 of
             (rs, w2) \<Rightarrow>
               ((case r of
                   Inl e \<Rightarrow> Inl e
                 | Inr v \<Rightarrow> (case rs of Inl e \<Rightarrow> Inl e | Inr vs \<Rightarrow> Inr (v # vs))),
                w2)))"

definition removeMethod :: "'s client \<Rightarrow> string \<Rightarrow> endpoint \<Rightarrow> ('s, unit) action" where
  "removeMethod apig apiId endpoint w =
     (case throttleAwsRequestRequest
             (call apig (DeleteMethod apiId (endpoint_id endpoint) (endpoint_method endpoint))) w of
        (Inl e, w1) \<Rightarrow>
          (if code e \<noteq> Some ''NotFoundException'' then (Inl (wrapError e), w1)
           else (Inr (), w1))
      | (Inr r, w1) \<Rightarrow> (Inr (), w1))"

definition removeMethods :: "'s client \<Rightarrow> string \<Rightarrow> endpoint list \<Rightarrow> ('s, unit list) action" where
  "removeMethods apig apiId endpoints =
     promise_all (map (removeMethod apig apiId) endpoints)"

definition removeResource :: "'s client \<Rightarrow> string \<Rightarrow> endpoint \<Rightarrow> ('s, unit) action" where
  "removeResource apig apiId endpoint w =
     (case throttleAwsRequestRequest
             (call apig (DeleteResource apiId (endpoint_id endpoint))) w of
        (Inl e, w1) \<Rightarrow>
          (if code e \<noteq> Some ''NotFoundException'' then (Inl (wrapError e), w1)
           else (Inr (), w1))
      | (Inr r, w1) \<Rightarrow> (Inr (), w1))"

text \<open>
  The test of lines 454-464 on one endpoint, against the listing of the pass: the
  resource with the endpoint's id is listed, binds no method and no listed resource
  names it as its parent.
\<close>

definition removable :: "resource list \<Rightarrow> endpoint \<Rightarrow> bool" where
  "removable items endpoint =
     (let resource = find (\<lambda>resourceItem. Some (resource_id resourceItem) = endpoint_id endpoint) items;
          childResources = filter (\<lambda>resourceItem. parentId resourceItem = endpoint_id endpoint) items;
          resourceMethods' = (case resource of None \<Rightarrow> [] | Some r \<Rightarrow> resourceMethods r)
      in resource \<noteq> None \<and> length resourceMethods' = 0 \<and> length childResources = 0)"

text \<open>
  \<open>removeResources\<close> (lines 444-476). The listing is read inside the loop over the
  endpoints only: a response without \<open>items\<close> is a \<open>TypeError\<close> unless there is no
  endpoint to look at. The function calls itself after every pass that deleted
  something, so it is partial as well.
\<close>

partial_function (option) removeResources ::
  "'s client \<Rightarrow> string \<Rightarrow> endpoint list \<Rightarrow> 's world \<Rightarrow> ((error + unit list) \<times> 's world) option" where
  "removeResources apig apiId endpoints w =
     (case throttleAwsRequestRequest (call apig (GetResources apiId)) w of
        (Inl e, w1) \<Rightarrow> Some (Inl e, w1)
      | (Inr resources, w1) \<Rightarrow>
         (case resources of
            Resources items \<Rightarrow>
             (let promises = map (removeResource apig apiId) (filter (removable items) endpoints)
              in if length promises = 0 then Some (Inr [], w1)
                 else
                  (case promise_all promises w1 of
                     (Inl e, w2) \<Rightarrow> Some (Inl e, w2)
                   | (Inr rs, w2) \<Rightarrow> removeResources apig apiId endpoints w2))
          | _ \<Rightarrow> (if endpoints = [] then Some (Inr [], w1) else Some (Inl TypeError, w1))))"

text \<open>
  \<open>removeAuthorizer\<close> (lines 544-567) on one endpoint: the method's authorization is
  patched to \<open>NONE\<close>, then the authorizer is deleted.
\<close>

definition detach_request :: "string \<Rightarrow> endpoint \<Rightarrow> request" where
  "detach_request apiId endpoint =
     UpdateMethod apiId (endpoint_id endpoint) (endpoint_method endpoint) [(''/authorizationType'', ''NONE'')]"

definition removeAuthorizer :: "'s client \<Rightarrow> string \<Rightarrow> endpoint \<Rightarrow> ('s, endpoint) action" where
  "removeAuthorizer apig apiId endpoint w =
     (if truthy_str (authorizerId endpoint) then
        (case throttleAwsRequestRequest (call apig (detach_request apiId endpoint)) w of
           (Inl e, w1) \<Rightarrow> (Inl e, w1)
         | (Inr r, w1) \<Rightarrow>
            (case throttleAwsRequestRequest
                    (call apig (DeleteAuthorizer apiId (the (authorizerId endpoint)))) w1 of
               (Inl e, w2) \<Rightarrow> (Inl e, w2)
             | (Inr r2, w2) \<Rightarrow> (Inr endpoint, w2)))
      else (Inr endpoint, w))"

text \<open>
  \<open>removeAuthorizers\<close> (lines 569-579) starts \<open>removeAuthorizer\<close> on every endpoint at
  once. Each task queues its patch request when it starts and its delete request only
  once its patch has succeeded, behind the patches still waiting in the queue. The
  requests therefore run in two rounds: the patches of all endpoints with an
  authorizer id, in order, then the deletes of those whose patch succeeded, in order.
  The combined promise rejects with the rejection that comes first.
\<close>

fun detach_round :: "'s client \<Rightarrow> string \<Rightarrow> endpoint list \<Rightarrow> 's world
     \<Rightarrow> (endpoint \<times> (error + response)) list \<times> 's world" where
  "detach_round apig apiId [] w = ([], w)"
| "detach_round apig apiId (endpoint # es) w =
     (if truthy_str (authorizerId endpoint) then
        (case throttleAwsRequestRequest (call apig (detach_request apiId endpoint)) w of
           (r, w1) \<Rightarrow>
             (case detach_round apig apiId es w1 of
                (rs, w2) \<Rightarrow> ((endpoint, r) # rs, w2)))
      else detach_round apig apiId es w)"

fun delete_round :: "'s client \<Rightarrow> string \<Rightarrow> (endpoint \<times> (error + response)) list \<Rightarrow> 's world
     \<Rightarrow> (error + response) list \<times> 's world" where
  "delete_round apig apiId [] w = ([], w)"
| "delete_round apig apiId ((endpoint, Inl e) # rs) w = delete_round apig apiId rs w"
| "delete_round apig apiId ((endpoint, Inr r) # rs) w =
     (case throttleAwsRequestRequest
             (call apig (DeleteAuthorizer apiId (the (authorizerId endpoint)))) w of
        (d, w1) \<Rightarrow>
          (case delete_round apig apiId rs w1 of
             (ds, w2) \<Rightarrow> (d # ds, w2)))"

fun first_rejection :: "(error + 'a) list \<Rightarrow> error option" where
  "first_rejection [] = None"
| "first_rejection (Inl e # rs) = Some e"
| "first_rejection (Inr v # rs) = first_rejection rs"

definition removeAuthorizers :: "'s client \<Rightarrow> string \<Rightarrow> endpoint list \<Rightarrow> ('s, endpoint list) action" where
  "removeAuthorizers apig apiId endpoints w =
     (case detach_round apig apiId endpoints w of
        (rs, w1) \<Rightarrow>
          (case delete_round apig apiId rs w1 of
             (ds, w2) \<Rightarrow>
               (case first_rejection (map snd rs @ ds) of
                  Some e \<Rightarrow> (Inl e, w2)
                | None \<Rightarrow> (Inr endpoints, w2))))"

text \<open>
  \<open>removeOutdatedEndpoints\<close> (lines 581-605). \<open>classify\<close> is the loop of lines
  584-598 and returns \<open>outdatedEndpoints\<close> and \<open>outdatedAuthorizers\<close>.
\<close>

fun classify :: "endpoint list \<Rightarrow> endpoint list \<Rightarrow> endpoint list \<times> endpoint list" where
  "classify endpoints [] = ([], [])"
| "classify endpoints (stateEndpoint # rest) =
     (let endpointInUse =
            find (\<lambda>endpoint. endpoint_method endpoint = endpoint_method stateEndpoint
                             \<and> path endpoint = path stateEndpoint) endpoints;
          authorizerInUse =
            find (\<lambda>endpoint. authorizerId endpoint = authorizerId stateEndpoint) endpoints;
          (outdatedEndpoints, outdatedAuthorizers) = classify endpoints rest
      in if endpointInUse = None then (stateEndpoint # outdatedEndpoints, outdatedAuthorizers)
         else if authorizerInUse = None then (outdatedEndpoints, stateEndpoint # outdatedAuthorizers)
         else (outdatedEndpoints, outdatedAuthorizers))"

definition removeOutdatedEndpoints ::
  "'s client \<Rightarrow> string \<Rightarrow> endpoint list \<Rightarrow> endpoint list \<Rightarrow> 's world
     \<Rightarrow> ((error + endpoint list) \<times> 's world) option" where
  "removeOutdatedEndpoints apig apiId endpoints stateEndpoints w =
     (case classify endpoints stateEndpoints of
        (outdatedEndpoints, outdatedAuthorizers) \<Rightarrow>
          (case removeResources apig apiId outdatedEndpoints w of
             None \<Rightarrow> None
           | Some (Inl e, w1) \<Rightarrow> Some (Inl e, w1)
           | Some (Inr rs, w1) \<Rightarrow>
              (case removeMethods apig apiId outdatedEndpoints w1 of
                 (Inl e, w2) \<Rightarrow> Some (Inl e, w2)
               | (Inr ms, w2) \<Rightarrow>
                  (case removeAuthorizers apig apiId outdatedAuthorizers w2 of
                     (Inl e, w3) \<Rightarrow> Some (Inl e, w3)
                   | (Inr es, w3) \<Rightarrow> Some (Inr outdatedEndpoints, w3)))))"

section \<open>Reading the trace of a retried request\<close>

text \<open>
  The trace a request leaves when its attempts have the outcomes \<open>outs\<close>, with a wait of
  \<open>mt * f ^ k\<close> milliseconds between attempt \<open>k + 1\<close> and attempt \<open>k + 2\<close>.
\<close>

fun backoff_trace :: "request \<Rightarrow> nat \<Rightarrow> nat \<Rightarrow> nat \<Rightarrow> (error + response) list \<Rightarrow> event list" where
  "backoff_trace req mt f k [] = []"
| "backoff_trace req mt f k [out] = [Call req out]"
| "backoff_trace req mt f k (out # out2 # outs) =
     Call req out # Sleep (mt * f ^ k) # backoff_trace req mt f (Suc k) (out2 # outs)"

definition rateLimited :: "error + 'a \<Rightarrow> bool" where
  "rateLimited out =
     (case out of Inl e \<Rightarrow> code e = Some ''TooManyRequestsException'' | Inr v \<Rightarrow> False)"

text \<open>
  A remote that answers the first \<open>n\<close> requests with the rate-limit error and hands
  every later one to the client it wraps.
\<close>

definition rate_limiting :: "'s client \<Rightarrow> (nat \<times> 's) client" where
  "rate_limiting client req s =
     (case s of
        (0, s0) \<Rightarrow> (case client req s0 of (r, s1) \<Rightarrow> (r, (0, s1)))
      | (Suc n, s0) \<Rightarrow> (Inl (AwsError ''TooManyRequestsException''), (n, s0)))"

definition always_done :: "unit client" where
  "always_done req s = (Inr Done, s)"

section \<open>Remotes used to run the code\<close>

text \<open>
  A reference remote: resources with their method bindings, and authorizers by id.
  A create call answers \<open>ConflictException\<close> when the path exists already; a call on a
  resource, method or authorizer that does not exist answers \<open>NotFoundException\<close>.
\<close>

record gateway =
  gw_resources :: "resource list"
  gw_authorizers :: "string list"

definition has_method :: "resource list \<Rightarrow> string option \<Rightarrow> string option \<Rightarrow> bool" where
  "has_method rs rid m =
     (\<exists>r \<in> set rs. Some (resource_id r) = rid \<and> (\<exists>x \<in> set (resourceMethods r). Some x = m))"

definition child_path :: "string \<Rightarrow> string \<Rightarrow> string" where
  "child_path parent part = (if parent = ''/'' then ''/'' @ part else parent @ ''/'' @ part)"

fun apigateway :: "gateway client" where
  "apigateway (GetResources a) s = (Inr (Resources (gw_resources s)), s)"
| "apigateway (GetMethod a rid m) s =
     (if has_method (gw_resources s) (Some rid) m then (Inr Done, s)
      else (Inl (AwsError ''NotFoundException''), s))"
| "apigateway (CreateResource a parent part) s =
     (case find (\<lambda>r. Some (resource_id r) = parent) (gw_resources s) of
        None \<Rightarrow> (Inl (AwsError ''NotFoundException''), s)
      | Some p \<Rightarrow>
         (if \<exists>r \<in> set (gw_resources s). resource_path r = child_path (resource_path p) part
          then (Inl (AwsError ''ConflictException''), s)
          else
           (let res = \<lparr>resource_id = ''id:'' @ child_path (resource_path p) part,
                       resource_path = child_path (resource_path p) part,
                       parentId = Some (resource_id p), resourceMethods = []\<rparr>
            in (Inr (Created res), s\<lparr>gw_resources := gw_resources s @ [res]\<rparr>))))"
| "apigateway (PutIntegration params) s =
     (if has_method (gw_resources s) (ip_resourceId params) (ip_httpMethod params)
      then (Inr Done, s)
      else (Inl (AwsError ''NotFoundException''), s))"
| "apigateway (DeleteMethod a rid m) s =
     (if has_method (gw_resources s) rid m
      then (Inr Done,
            s\<lparr>gw_resources :=
                 map (\<lambda>r. if Some (resource_id r) = rid
                           then r\<lparr>resourceMethods := filter (\<lambda>x. Some x \<noteq> m) (resourceMethods r)\<rparr>
                           else r)
                   (gw_resources s)\<rparr>)
      else (Inl (AwsError ''NotFoundException''), s))"
| "apigateway (DeleteResource a rid) s =
     (if \<exists>r \<in> set (gw_resources s). Some (resource_id r) = rid
      then (Inr Done,
            s\<lparr>gw_resources := filter (\<lambda>r. Some (resource_id r) \<noteq> rid) (gw_resources s)\<rparr>)
      else (Inl (AwsError ''NotFoundException''), s))"
| "apigateway (UpdateMethod a rid m patch) s =
     (if has_method (gw_resources s) rid m then (Inr Done, s)
      else (Inl (AwsError ''NotFoundException''), s))"
| "apigateway (DeleteAuthorizer a aid) s =
     (if aid \<in> set (gw_authorizers s)
      then (Inr Done, s\<lparr>gw_authorizers := filter (\<lambda>x. x \<noteq> aid) (gw_authorizers s)\<rparr>)
      else (Inl (AwsError ''NotFoundException''), s))"
| "apigateway (AddPermission params) s = (Inr Done, s)"

text \<open>A remote whose method lookups fail with a server-side error.\<close>

fun lookup_unavailable :: "gateway client" where
  "lookup_unavailable (GetMethod a rid m) s = (Inl (AwsError ''ServiceUnavailableException''), s)"
| "lookup_unavailable req s = apigateway req s"

text \<open>
  A remote shared with a concurrent creator: right after the next listing is answered,
  the other party creates the pending resource.
\<close>

fun racing :: "(resource option \<times> gateway) client" where
  "racing (GetResources a) (Some res, s) =
     (Inr (Resources (gw_resources s)), (None, s\<lparr>gw_resources := gw_resources s @ [res]\<rparr>))"
| "racing req (pending, s) = (case apigateway req s of (r, s') \<Rightarrow> (r, (pending, s')))"

text \<open>A remote that answers the first \<open>n\<close> integration puts with a conflict.\<close>

fun conflicting :: "'s client \<Rightarrow> (nat \<times> 's) client" where
  "conflicting client (PutIntegration params) (Suc n, s) =
     (Inl (AwsError ''ConflictException''), (n, s))"
| "conflicting client req (n, s) = (case client req s of (r, s') \<Rightarrow> (r, (n, s')))"

text \<open>Sample data: the root, a resource \<open>/old\<close> that binds \<open>GET\<close>, and its endpoint.\<close>

definition root_resource :: resource where
  "root_resource =
     \<lparr>resource_id = ''root'', resource_path = ''/'', parentId = None, resourceMethods = []\<rparr>"

definition old_resource :: resource where
  "old_resource =
     \<lparr>resource_id = ''r1'', resource_path = ''/old'', parentId = Some ''root'',
      resourceMethods = [''GET'']\<rparr>"

definition old_endpoint :: endpoint where
  "old_endpoint =
     \<lparr>endpoint_method = Some ''GET'', path = Some ''/old'', endpoint_id = Some ''r1'',
      authorizerId = Some ''auth1'', endpoint_function = None, proxyURI = None,
      greedyPath = None\<rparr>"

definition old_gateway :: gateway where
  "old_gateway = \<lparr>gw_resources = [root_resource, old_resource], gw_authorizers = [''auth1'']\<rparr>"
definition get_old :: jsval where
  "get_old = JObj [(''method'', JStr ''get''), (''path'', JStr ''/old'')]"

definition get_old_valid :: jsval where
  "get_old_valid = JObj [(''method'', JStr ''GET''), (''path'', JStr ''/old''),
     (''url'', JStr ''https://api.execute-api.eu-west-1.amazonaws.com/dev/old'')]"

definition old_listing :: event where
  "old_listing = Call (GetResources ''api'') (Inr (Resources [root_resource, old_resource]))"

text \<open>
  Sample data for a creation race: only the root exists, and a concurrent creator is
  about to add \<open>/a\<close>.
\<close>

definition a_resource :: resource where
  "a_resource =
     \<lparr>resource_id = ''ra'', resource_path = ''/a'', parentId = Some ''root'',
      resourceMethods = []\<rparr>"

definition root_gateway :: gateway where
  "root_gateway = \<lparr>gw_resources = [root_resource], gw_authorizers = []\<rparr>"

definition raced_gateway :: gateway where
  "raced_gateway = \<lparr>gw_resources = [root_resource, a_resource], gw_authorizers = []\<rparr>"

definition race_listing1 :: event where
  "race_listing1 = Call (GetResources ''api'') (Inr (Resources [root_resource]))"

definition race_listing2 :: event where
  "race_listing2 = Call (GetResources ''api'') (Inr (Resources [root_resource, a_resource]))"

definition race_conflict :: event where
  "race_conflict =
     Call (CreateResource ''api'' (Some ''root'') ''a'') (Inl (AwsError ''ConflictException''))"

text \<open>
  The trace of \<open>n\<close> integration puts answered with a conflict, each followed by the
  cool-down, and a sample endpoint that proxies \<open>GET /old\<close> to an upstream URI.
\<close>

definition conflict_trace :: "nat \<Rightarrow> integrationParams \<Rightarrow> event list" where
  "conflict_trace n params =
     concat (replicate n
       [Call (PutIntegration params) (Inl (AwsError ''ConflictException'')), Sleep 2000])"

definition proxy_endpoint :: endpoint where
  "proxy_endpoint =
     \<lparr>endpoint_method = Some ''GET'', path = Some ''/old'', endpoint_id = Some ''r1'',
      authorizerId = None, endpoint_function = None, proxyURI = Some ''https://example.com'',
      greedyPath = None\<rparr>"

definition missing_endpoint :: endpoint where
  "missing_endpoint =
     \<lparr>endpoint_method = Some ''POST'', path = Some ''/old'', endpoint_id = Some ''r1'',
      authorizerId = None, endpoint_function = None, proxyURI = Some ''https://example.com'',
      greedyPath = None\<rparr>"

text \<open>
  Sample data for garbage collection: the prior state holds \<open>GET /old\<close>, without an
  authorizer (\<open>plain\<close>) or with the authorizer \<open>auth1\<close> (\<open>old_endpoint\<close> above).
\<close>

definition plain_endpoint :: endpoint where
  "plain_endpoint = old_endpoint\<lparr>authorizerId := None\<rparr>"

definition plain_gateway :: gateway where
  "plain_gateway = \<lparr>gw_resources = [root_resource, old_resource], gw_authorizers = []\<rparr>"

definition unbound_resource :: resource where
  "unbound_resource = old_resource\<lparr>resourceMethods := []\<rparr>"

definition method_deleted :: event where
  "method_deleted = Call (DeleteMethod ''api'' (Some ''r1'') (Some ''GET'')) (Inr Done)"

section \<open>Reading the trace of resource removal\<close>

text \<open>
  \<open>last_listing\<close> is the listing of the most recent successful \<open>getResources\<close> call
  of a trace (starting from \<open>L\<close>). \<open>deletes_justified\<close> holds of a trace when every
  \<open>deleteResource\<close> attempt in it names a resource that the most recent listing
  before it shows with no bound method and with no child.
\<close>

fun listed :: "event \<Rightarrow> resource list option" where
  "listed (Call (GetResources a) (Inr (Resources items))) = Some items"
| "listed ev = None"

fun deleted :: "event \<Rightarrow> string option option" where
  "deleted (Call (DeleteResource a rid) out) = Some rid"
| "deleted ev = None"

definition childless_unbound :: "resource list \<Rightarrow> string option \<Rightarrow> bool" where
  "childless_unbound items rid =
     ((\<exists>r \<in> set items. Some (resource_id r) = rid \<and> resourceMethods r = [])
      \<and> \<not> (\<exists>c \<in> set items. parentId c = rid))"

fun last_listing :: "resource list option \<Rightarrow> event list \<Rightarrow> resource list option" where
  "last_listing L [] = L"
| "last_listing L (ev # evs) =
     last_listing (case listed ev of None \<Rightarrow> L | Some items \<Rightarrow> Some items) evs"

fun deletes_justified :: "resource list option \<Rightarrow> event list \<Rightarrow> bool" where
  "deletes_justified L [] = True"
| "deletes_justified L (ev # evs) =
     ((case deleted ev of
         None \<Rightarrow> True
       | Some rid \<Rightarrow> (case L of None \<Rightarrow> False | Some items \<Rightarrow> childless_unbound items rid))
      \<and> deletes_justified (case listed ev of None \<Rightarrow> L | Some items \<Rightarrow> Some items) evs)"
text \<open>
  Sample data for pruning: an orphaned branch \<open>/a/b\<close> below the root, no method bound
  anywhere, and the two prior endpoints that live on its nodes.
\<close>

definition b_resource :: resource where
  "b_resource =
     \<lparr>resource_id = ''rb'', resource_path = ''/a/b'', parentId = Some ''ra'',
      resourceMethods = []\<rparr>"

definition a_endpoint :: endpoint where
  "a_endpoint = path_only ''/a'' \<lparr>endpoint_method := Some ''GET'', endpoint_id := Some ''ra''\<rparr>"

definition b_endpoint :: endpoint where
  "b_endpoint = path_only ''/a/b'' \<lparr>endpoint_method := Some ''GET'', endpoint_id := Some ''rb''\<rparr>"

definition branch_gateway :: gateway where
  "branch_gateway =
     \<lparr>gw_resources = [root_resource, a_resource, b_resource], gw_authorizers = []\<rparr>"

definition pruning_trace :: "event list" where
  "pruning_trace =
     [Call (GetResources ''api'') (Inr (Resources [root_resource, a_resource, b_resource])),
      Call (DeleteResource ''api'' (Some ''rb'')) (Inr Done),
      Call (GetResources ''api'') (Inr (Resources [root_resource, a_resource])),
      Call (DeleteResource ''api'' (Some ''ra'')) (Inr Done),
      Call (GetResources ''api'') (Inr (Resources [root_resource]))]"

section \<open>Reading the trace of authorizer removal\<close>

text \<open>
  The two selections of \<open>removeOutdatedEndpoints\<close> in the words of its specification,
  to be compared with the loop \<open>classify\<close>: a prior endpoint is \<open>matched\<close> when a
  desired endpoint has its method and path, and its authorizer is \<open>referenced\<close> when a
  desired endpoint has its \<open>authorizerId\<close>. \<open>stale\<close> are the prior endpoints that
  are not matched; \<open>detached\<close> are the matched ones whose authorizer is set and not
  referenced.
\<close>

definition matched :: "endpoint list \<Rightarrow> endpoint \<Rightarrow> bool" where
  "matched endpoints stateEndpoint =
     (\<exists>endpoint \<in> set endpoints.
        endpoint_method endpoint = endpoint_method stateEndpoint
        \<and> path endpoint = path stateEndpoint)"

definition referenced :: "endpoint list \<Rightarrow> endpoint \<Rightarrow> bool" where
  "referenced endpoints stateEndpoint =
     (\<exists>endpoint \<in> set endpoints. authorizerId endpoint = authorizerId stateEndpoint)"

definition stale :: "endpoint list \<Rightarrow> endpoint list \<Rightarrow> endpoint list" where
  "stale endpoints stateEndpoints = filter (\<lambda>e. \<not> matched endpoints e) stateEndpoints"

definition detached :: "endpoint list \<Rightarrow> endpoint list \<Rightarrow> endpoint list" where
  "detached endpoints stateEndpoints =
     filter (\<lambda>e. matched endpoints e \<and> \<not> referenced endpoints e \<and> truthy_str (authorizerId e))
       stateEndpoints"

text \<open>
  The \<open>updateMethod\<close> and \<open>deleteAuthorizer\<close> requests of a trace, one per attempt,
  in order.
\<close>

fun authorizer_requests :: "event list \<Rightarrow> request list" where
  "authorizer_requests [] = []"
| "authorizer_requests (Call (UpdateMethod a rid m patch) out # evs) =
     UpdateMethod a rid m patch # authorizer_requests evs"
| "authorizer_requests (Call (DeleteAuthorizer a aid) out # evs) =
     DeleteAuthorizer a aid # authorizer_requests evs"
| "authorizer_requests (ev # evs) = authorizer_requests evs"

text \<open>
  The trace left by one retried request per endpoint, \<open>req endpoint\<close>, when the
  attempts for the endpoints have the outcomes \<open>outss\<close>; \<open>patched\<close> keeps the
  endpoints whose request succeeded in the end; \<open>delete_request\<close> is the request of
  lines 561-563.
\<close>

fun attempts_trace ::
  "(endpoint \<Rightarrow> request) \<Rightarrow> endpoint list \<Rightarrow> (error + response) list list \<Rightarrow> event list" where
  "attempts_trace req (endpoint # es) (outs # outss) =
     backoff_trace (req endpoint) 1000 2 0 outs @ attempts_trace req es outss"
| "attempts_trace req es outss = []"

fun patched :: "endpoint list \<Rightarrow> (error + response) list list \<Rightarrow> endpoint list" where
  "patched (endpoint # es) (outs # outss) =
     (case last outs of
        Inl e \<Rightarrow> patched es outss
      | Inr r \<Rightarrow> endpoint # patched es outss)"
| "patched es outss = []"

definition delete_request :: "string \<Rightarrow> endpoint \<Rightarrow> request" where
  "delete_request apiId endpoint = DeleteAuthorizer apiId (the (authorizerId endpoint))"

text \<open>
  Sample data: the desired endpoint \<open>GET /old\<close> without an authorizer, and the two
  requests that detach and delete the authorizer \<open>auth1\<close> of the prior endpoint.
\<close>

definition kept_endpoint :: endpoint where
  "kept_endpoint = old_endpoint\<lparr>authorizerId := None\<rparr>"

definition auth_detached :: event where
  "auth_detached =
     Call (UpdateMethod ''api'' (Some ''r1'') (Some ''GET'') [(''/authorizationType'', ''NONE'')])
       (Inr Done)"

definition auth_deleted :: event where
  "auth_deleted = Call (DeleteAuthorizer ''api'' ''auth1'') (Inr Done)"

section \<open>Path normalisation\<close>

lemma substring_butlast: "substring s 0 (length s - Suc 0) = butlast s"
  by (simp add: substring_def butlast_conv_take)

lemma endsWith1: "endsWith s [c] \<longleftrightarrow> s \<noteq> [] \<and> last s = c"
proof (cases s rule: rev_cases)
  case Nil then show ?thesis by (simp add: endsWith_def)
next
  case (snoc ys y) then show ?thesis by (auto simp add: endsWith_def)
qed

lemma startsWith1: "startsWith s [c] \<longleftrightarrow> s \<noteq> [] \<and> hd s = c"
  by (cases s) (auto simp add: startsWith_def)

lemma endsWith2:
  "endsWith s [d, c] \<longleftrightarrow> 2 \<le> length s \<and> last s = c \<and> last (butlast s) = d"
proof (cases s rule: rev_cases)
  case Nil then show ?thesis by (simp add: endsWith_def)
next
  case (snoc ys y)
  note s = this
  show ?thesis
  proof (cases ys rule: rev_cases)
    case Nil with s show ?thesis by (simp add: endsWith_def)
  next
    case (snoc zs z) with s show ?thesis by (auto simp add: endsWith_def butlast_append)
  qed
qed

lemma normalizedPath_alt:
  "p \<noteq> [] \<Longrightarrow> normalizedPath p =
     (if p = ''/'' then p
      else if hd p = CHR ''/''
        then (if last p = CHR ''/'' then butlast p else p)
        else (if last p = CHR ''/'' then CHR ''/'' # butlast p else CHR ''/'' # p))"
  using substring_butlast [of p] substring_butlast [of "CHR ''/'' # p"]
  by (auto simp add: normalizedPath_def Let_def startsWith1 endsWith1)

lemma normalizedPath_starts:
  assumes "p \<noteq> []" shows "startsWith (normalizedPath p) ''/''"
proof (cases p)
  case Nil with assms show ?thesis by simp
next
  case (Cons a q)
  then show ?thesis
    by (cases q rule: rev_cases) (auto simp add: normalizedPath_alt startsWith1 butlast_append)
qed

lemma normalizedPath_trailing:
  assumes "p \<noteq> []"
  shows "(endsWith (normalizedPath p) ''/'' \<and> normalizedPath p \<noteq> ''/'')
           \<longleftrightarrow> (endsWith p ''//'' \<and> p \<noteq> ''//'')"
proof (cases p rule: rev_cases)
  case Nil with assms show ?thesis by simp
next
  case (snoc r c)
  note p = this
  show ?thesis
  proof (cases r rule: rev_cases)
    case Nil with p show ?thesis by (auto simp add: normalizedPath_alt endsWith1 endsWith2)
  next
    case (snoc q d)
    with p have p': "p = q @ [d, c]" by simp
    show ?thesis
    proof (cases q)
      case Nil with p' show ?thesis
        by (auto simp add: normalizedPath_alt endsWith1 endsWith2)
    next
      case (Cons a q')
      with p' show ?thesis
        by (auto simp add: normalizedPath_alt endsWith1 endsWith2 butlast_append)
    qed
  qed
qed

lemma normalizedPath_idem:
  assumes "p \<noteq> []" "\<not> endsWith p ''//''"
  shows "normalizedPath (normalizedPath p) = normalizedPath p"
proof (cases "normalizedPath p = ''/''")
  case True then show ?thesis by (simp add: normalizedPath_def)
next
  case False
  with normalizedPath_trailing [OF assms(1)] assms(2)
  have "\<not> endsWith (normalizedPath p) ''/''" by simp
  moreover have "startsWith (normalizedPath p) ''/''"
    by (rule normalizedPath_starts [OF assms(1)])
  ultimately show ?thesis
    using False by (simp add: normalizedPath_def [of "normalizedPath p"] Let_def)
qed

lemma map_of_assign: "map_of (assign k v fs) k' = (if k' = k then Some v else map_of fs k')"
  by (induction fs) auto

lemma assign_same: "map_of fs k = Some v \<Longrightarrow> assign k v fs = fs"
  by (induction fs) (auto split: if_splits)

lemma upper_valid_fixed:
  "u \<in> set validMethods \<Longrightarrow> toUpperCase u = u"
  by (auto simp add: validMethods_def toUpperCase_def upper_char_def)

lemma validateEndpointObject_Inr:
  assumes "validateEndpointObject endpoint apiId stage region = Inr v"
  shows "\<exists>fs m p. endpoint = JObj fs \<and> map_of fs ''method'' = Some (JStr m)
           \<and> map_of fs ''path'' = Some (JStr p) \<and> p \<noteq> [] \<and> toUpperCase m \<in> set validMethods
           \<and> v = JObj (assign ''method'' (JStr (toUpperCase m))
                   (assign ''path'' (JStr (normalizedPath p))
                     (assign ''url'' (JStr (endpointUrl apiId region stage (normalizedPath p)))
                       (assign ''path'' (JStr (normalizedPath p)) fs))))"
proof (cases endpoint)
  case (JObj fs)
  with assms show ?thesis
    by (auto simp add: validateEndpointObject_def Let_def
        split: if_splits sum.splits jsval.splits option.splits)
qed (use assms in \<open>auto simp add: validateEndpointObject_def\<close>)

text \<open>
  C7 (amended). For every endpoint that passes validation, the canonical method is the
  upper-cased input method and the canonical path starts with a slash. Exactly one
  trailing slash is cut: the canonical path ends with a slash without being the root
  exactly when the input path ends with two slashes (and is not \<open>//\<close> itself).
\<close>

theorem validateEndpointObject_canonical:
  assumes "validateEndpointObject endpoint apiId stage region = Inr v"
  shows "\<exists>m p q. getProp endpoint ''method'' = Inr (JStr m)
           \<and> getProp endpoint ''path'' = Inr (JStr p)
           \<and> getProp v ''method'' = Inr (JStr (toUpperCase m))
           \<and> getProp v ''path'' = Inr (JStr q)
           \<and> startsWith q ''/''
           \<and> ((endsWith q ''/'' \<and> q \<noteq> ''/'') \<longleftrightarrow> (endsWith p ''//'' \<and> p \<noteq> ''//''))"
proof -
  from validateEndpointObject_Inr [OF assms] obtain fs m p where
    e: "endpoint = JObj fs" and m: "map_of fs ''method'' = Some (JStr m)"
    and p: "map_of fs ''path'' = Some (JStr p)" and ne: "p \<noteq> []"
    and v: "v = JObj (assign ''method'' (JStr (toUpperCase m))
                   (assign ''path'' (JStr (normalizedPath p))
                     (assign ''url'' (JStr (endpointUrl apiId region stage (normalizedPath p)))
                       (assign ''path'' (JStr (normalizedPath p)) fs))))"
    by blast
  have "getProp endpoint ''method'' = Inr (JStr m)" using e m by simp
  moreover have "getProp endpoint ''path'' = Inr (JStr p)" using e p by simp
  moreover have "getProp v ''method'' = Inr (JStr (toUpperCase m))"
    using v by (simp add: map_of_assign)
  moreover have "getProp v ''path'' = Inr (JStr (normalizedPath p))"
    using v by (simp add: map_of_assign)
  moreover note normalizedPath_starts [OF ne] normalizedPath_trailing [OF ne]
  ultimately show ?thesis by blast
qed

lemmas validate_eval = validateEndpointObject_def toUpperCase_def upper_char_def
  validMethods_def normalizedPath_def startsWith_def endsWith_def substring_def
  endpointUrl_def Let_def

lemma validate_ex_items:
  "validateEndpointObject ex_items ''api'' ''dev'' ''eu-west-1'' = Inr ex_items_valid"
  by (simp add: ex_items_def ex_items_valid_def validate_eval)

theorem validateEndpointObject_canonical_witness:
  "validateEndpointObject ex_items ''api'' ''dev'' ''eu-west-1'' = Inr ex_items_valid
   \<and> getProp ex_items_valid ''method'' = Inr (JStr ''GET'')
   \<and> getProp ex_items_valid ''path'' = Inr (JStr ''/items'')
   \<and> startsWith ''/items'' ''/'' \<and> \<not> endsWith ''/items'' ''/''"
proof -
  from validateEndpointObject_canonical [OF validate_ex_items]
  obtain p q where "getProp ex_items ''path'' = Inr (JStr p)"
    and "getProp ex_items_valid ''path'' = Inr (JStr q)"
    and "startsWith q ''/''"
    and "(endsWith q ''/'' \<and> q \<noteq> ''/'') \<longleftrightarrow> (endsWith p ''//'' \<and> p \<noteq> ''//'')"
    by blast
  moreover have "getProp ex_items_valid ''method'' = Inr (JStr ''GET'')"
    by (simp add: ex_items_valid_def)
  ultimately show ?thesis
    using validate_ex_items
    by (auto simp add: ex_items_def ex_items_valid_def endsWith_def)
qed

text \<open>
  The claim as written fails on an input path with two trailing slashes: only one is cut.
\<close>

theorem validateEndpointObject_trailing_slash_counterexample:
  "validateEndpointObject (JObj [(''method'', JStr ''get''), (''path'', JStr ''items//'')])
       ''api'' ''dev'' ''eu-west-1''
     = Inr (JObj [(''method'', JStr ''GET''), (''path'', JStr ''/items/''),
         (''url'', JStr ''https://api.execute-api.eu-west-1.amazonaws.com/dev/items/'')])
   \<and> endsWith ''/items/'' ''/'' \<and> ''/items/'' \<noteq> ''/''"
  by (simp add: validate_eval)

text \<open>The spec's other scenario: an empty path is refused.\<close>

lemma validateEndpointObject_empty_path:
  "validateEndpointObject (JObj [(''method'', JStr ''get''), (''path'', JStr [])])
       ''api'' ''dev'' ''eu-west-1''
     = Inl (Error ''endpoint path cannot be an empty string for endpoint'')"
  by (simp add: validateEndpointObject_def)

text \<open>
  C8 (amended). Validating the output of a successful validation succeeds again and
  yields the same canonical method; when the input path does not end with two slashes
  it yields the very same endpoint, so the same canonical path.
\<close>

theorem validateEndpointObject_idempotent:
  assumes "validateEndpointObject endpoint apiId stage region = Inr v"
    and "getProp endpoint ''path'' = Inr (JStr p)"
  shows "\<exists>v'. validateEndpointObject v apiId stage region = Inr v'
           \<and> getProp v' ''method'' = getProp v ''method''
           \<and> (\<not> endsWith p ''//'' \<longrightarrow> v' = v)"
proof -
  from validateEndpointObject_Inr [OF assms(1)] obtain fs m p0 where
    e: "endpoint = JObj fs" and m: "map_of fs ''method'' = Some (JStr m)"
    and p: "map_of fs ''path'' = Some (JStr p0)" and ne: "p0 \<noteq> []"
    and valid: "toUpperCase m \<in> set validMethods"
    and v: "v = JObj (assign ''method'' (JStr (toUpperCase m))
                   (assign ''path'' (JStr (normalizedPath p0))
                     (assign ''url'' (JStr (endpointUrl apiId region stage (normalizedPath p0)))
                       (assign ''path'' (JStr (normalizedPath p0)) fs))))"
    by blast
  from assms(2) e p have pp: "p0 = p" by simp
  define fs' where "fs' = assign ''method'' (JStr (toUpperCase m))
                   (assign ''path'' (JStr (normalizedPath p))
                     (assign ''url'' (JStr (endpointUrl apiId region stage (normalizedPath p)))
                       (assign ''path'' (JStr (normalizedPath p)) fs)))"
  have v': "v = JObj fs'" using v pp fs'_def by simp
  have gm: "map_of fs' ''method'' = Some (JStr (toUpperCase m))"
    by (simp add: fs'_def map_of_assign)
  have gp: "map_of fs' ''path'' = Some (JStr (normalizedPath p))"
    by (simp add: fs'_def map_of_assign)
  have gu: "map_of fs' ''url'' = Some (JStr (endpointUrl apiId region stage (normalizedPath p)))"
    by (simp add: fs'_def map_of_assign)
  have np: "normalizedPath p \<noteq> []"
    using normalizedPath_starts [of p] ne pp by (auto simp add: startsWith1)
  have up: "toUpperCase (toUpperCase m) = toUpperCase m"
    by (rule upper_valid_fixed [OF valid])
  let ?q = "normalizedPath (normalizedPath p)"
  let ?r = "JObj (assign ''method'' (JStr (toUpperCase m))
                   (assign ''path'' (JStr ?q)
                     (assign ''url'' (JStr (endpointUrl apiId region stage ?q))
                       (assign ''path'' (JStr ?q) fs'))))"
  have um: "toUpperCase m \<noteq> []"
    using valid by (auto simp add: validMethods_def)
  have run: "validateEndpointObject v apiId stage region = Inr ?r"
    using gm gp np valid up um by (simp add: v' validateEndpointObject_def Let_def)
  have meth: "getProp ?r ''method'' = getProp v ''method''"
    using gm by (simp add: v' map_of_assign)
  have same: "?r = v" if "\<not> endsWith p ''//''"
  proof -
    have q: "?q = normalizedPath p" using normalizedPath_idem [of p] ne pp that by simp
    show ?thesis
      using gm gp gu by (simp add: q v' assign_same map_of_assign)
  qed
  from run meth same show ?thesis by blast
qed

theorem validateEndpointObject_idempotent_witness:
  "validateEndpointObject ex_items ''api'' ''dev'' ''eu-west-1'' = Inr ex_items_valid
   \<and> getProp ex_items ''path'' = Inr (JStr ''items/'')
   \<and> \<not> endsWith ''items/'' ''//''
   \<and> validateEndpointObject ex_items_valid ''api'' ''dev'' ''eu-west-1'' = Inr ex_items_valid"
proof -
  have p: "getProp ex_items ''path'' = Inr (JStr ''items/'')"
    by (simp add: ex_items_def)
  have n: "\<not> endsWith ''items/'' ''//''"
    by (simp add: endsWith_def)
  from validateEndpointObject_idempotent [OF validate_ex_items p] n
  have "validateEndpointObject ex_items_valid ''api'' ''dev'' ''eu-west-1'' = Inr ex_items_valid"
    by auto
  with validate_ex_items p n show ?thesis by simp
qed

text \<open>
  The claim as written fails on the input path \<open>a//\<close>: the first validation yields
  \<open>/a/\<close>, the second one \<open>/a\<close>.
\<close>

theorem validateEndpointObject_not_idempotent_counterexample:
  "validateEndpointObject (JObj [(''method'', JStr ''get''), (''path'', JStr ''a//'')])
       ''api'' ''dev'' ''eu-west-1''
     = Inr (JObj [(''method'', JStr ''GET''), (''path'', JStr ''/a/''),
         (''url'', JStr ''https://api.execute-api.eu-west-1.amazonaws.com/dev/a/'')])
   \<and> validateEndpointObject (JObj [(''method'', JStr ''GET''), (''path'', JStr ''/a/''),
         (''url'', JStr ''https://api.execute-api.eu-west-1.amazonaws.com/dev/a/'')])
       ''api'' ''dev'' ''eu-west-1''
     = Inr (JObj [(''method'', JStr ''GET''), (''path'', JStr ''/a''),
         (''url'', JStr ''https://api.execute-api.eu-west-1.amazonaws.com/dev/a'')])"
  by (simp add: validate_eval)

section \<open>The retry policy\<close>

lemma backoff_trace_Cons:
  "outs \<noteq> [] \<Longrightarrow>
     backoff_trace req mt f k (out # outs)
       = Call req out # Sleep (mt * f ^ k) # backoff_trace req mt f (Suc k) outs"
  by (cases outs) auto

lemma pRetry_from_call:
  fixes apig :: "'s client"
  defines "input \<equiv> (\<lambda>req w. case call apig req w of
               (Inr v, w') \<Rightarrow> (Inr v, w')
             | (Inl error, w') \<Rightarrow>
                 (if code error \<noteq> Some ''TooManyRequestsException''
                  then (Inl (AbortError error), w')
                  else (Inl (Rejected error), w')))"
  shows "\<exists>outs. outs \<noteq> [] \<and> length outs \<le> Suc n
           \<and> (\<forall>out \<in> set (butlast outs). rateLimited out)
           \<and> (length outs < Suc n \<longrightarrow> \<not> rateLimited (last outs))
           \<and> fst (pRetry_from (input req) opts n k w) = last outs
           \<and> trace (snd (pRetry_from (input req) opts n k w))
               = trace w @ backoff_trace req (minTimeout opts) (factor opts) k outs"
proof (induction n arbitrary: k w)
  case 0
  obtain r s' where c: "apig req (remote w) = (r, s')" by (cases "apig req (remote w)")
  show ?case
    by (rule exI [of _ "[r]"])
       (use c in \<open>auto simp add: input_def call_def split: sum.splits\<close>)
next
  case (Suc n)
  obtain r s' where c: "apig req (remote w) = (r, s')" by (cases "apig req (remote w)")
  define w' where "w' = w\<lparr>remote := s', trace := trace w @ [Call req r]\<rparr>"
  have cw: "call apig req w = (r, w')" using c by (simp add: call_def w'_def)
  show ?case
  proof (cases "rateLimited r")
    case False
    then have "pRetry_from (input req) opts (Suc n) k w = (r, w')"
      using cw by (auto simp add: input_def rateLimited_def split: sum.splits)
    with False show ?thesis
      by (intro exI [of _ "[r]"]) (simp add: w'_def)
  next
    case True
    then obtain e where r: "r = Inl e" and e: "code e = Some ''TooManyRequestsException''"
      by (auto simp add: rateLimited_def split: sum.splits)
    let ?w = "sleep (minTimeout opts * factor opts ^ k) w'"
    have step: "pRetry_from (input req) opts (Suc n) k w
                  = pRetry_from (input req) opts n (Suc k) ?w"
      using cw r e by (simp add: input_def)
    from Suc.IH [of "Suc k" ?w] obtain outs where
      o: "outs \<noteq> []" "length outs \<le> Suc n" "\<forall>out \<in> set (butlast outs). rateLimited out"
         "length outs < Suc n \<longrightarrow> \<not> rateLimited (last outs)"
         "fst (pRetry_from (input req) opts n (Suc k) ?w) = last outs"
         "trace (snd (pRetry_from (input req) opts n (Suc k) ?w))
            = trace ?w @ backoff_trace req (minTimeout opts) (factor opts) (Suc k) outs"
      by blast
    have tr: "trace ?w = trace w @ [Call req r, Sleep (minTimeout opts * factor opts ^ k)]"
      by (simp add: sleep_def w'_def)
    show ?thesis
      unfolding step using o True tr
      by (intro exI [of _ "r # outs"]) (simp add: backoff_trace_Cons)
  qed
qed

lemma throttle_pRetry_from:
  "throttleAwsRequestRequest (call apig req) w
     = pRetry_from
         (\<lambda>w. case call apig req w of
               (Inr v, w') \<Rightarrow> (Inr v, w')
             | (Inl error, w') \<Rightarrow>
                 (if code error \<noteq> Some ''TooManyRequestsException''
                  then (Inl (AbortError error), w')
                  else (Inl (Rejected error), w')))
         \<lparr>retries = 5, minTimeout = 1000, factor = 2\<rparr> 5 0 w"
  by (simp add: throttleAwsRequestRequest_def retry_def pRetry_def no_opts_def)

lemma throttle_trace:
  obtains outs where "outs \<noteq> []"
    and "fst (throttleAwsRequestRequest (call apig req) w) = last outs"
    and "trace (snd (throttleAwsRequestRequest (call apig req) w))
           = trace w @ backoff_trace req 1000 2 0 outs"
proof -
  from pRetry_from_call [of 5 apig req "\<lparr>retries = 5, minTimeout = 1000, factor = 2\<rparr>" 0 w]
  obtain outs where "outs \<noteq> []"
    "fst (throttleAwsRequestRequest (call apig req) w) = last outs"
    "trace (snd (throttleAwsRequestRequest (call apig req) w))
         = trace w @ backoff_trace req 1000 2 0 outs"
    unfolding throttle_pRetry_from by auto
  then show thesis by (rule that)
qed

text \<open>
  C4 (amended). A submitted request is attempted at most 6 times (once, and up to 5
  retries). Every attempt but the last failed with the rate-limit classification and
  was followed by a wait of 1000 ms times 2 to the number of earlier retries; an attempt
  that succeeds or fails with any other classification is the last one; the submitter
  receives the outcome of the last attempt, so the original error on an abort and the
  last rate-limit error when all 6 attempts are used up.
\<close>

theorem throttleAwsRequestRequest_attempts:
  "\<exists>outs. outs \<noteq> [] \<and> length outs \<le> 6
     \<and> (\<forall>out \<in> set (butlast outs). rateLimited out)
     \<and> (length outs < 6 \<longrightarrow> \<not> rateLimited (last outs))
     \<and> fst (throttleAwsRequestRequest (call apig req) w) = last outs
     \<and> trace (snd (throttleAwsRequestRequest (call apig req) w))
         = trace w @ backoff_trace req 1000 2 0 outs"
  using pRetry_from_call [of 5 apig req
      "\<lparr>retries = 5, minTimeout = 1000, factor = 2\<rparr>" 0 w]
  unfolding throttle_pRetry_from by simp

lemma backoff_trace_limited:
  "backoff_trace req mt f k (Inl (AwsError ''TooManyRequestsException'') # replicate n x @ [r])
     = Call req (Inl (AwsError ''TooManyRequestsException'')) # Sleep (mt * f ^ k)
         # backoff_trace req mt f (Suc k) (replicate n x @ [r])"
  by (rule backoff_trace_Cons) simp

lemma pRetry_from_rate_limiting:
  fixes client :: "'s client"
  defines "input \<equiv> (\<lambda>req w. case call (rate_limiting client) req w of
               (Inr v, w') \<Rightarrow> (Inr v, w')
             | (Inl error, w') \<Rightarrow>
                 (if code error \<noteq> Some ''TooManyRequestsException''
                  then (Inl (AbortError error), w')
                  else (Inl (Rejected error), w')))"
  assumes "client req s = (r, s1)" and "\<not> rateLimited r"
  shows "n \<le> m \<Longrightarrow>
    pRetry_from (input req) opts m k \<lparr>remote = (n, s), trace = t\<rparr>
      = (r, \<lparr>remote = (0, s1),
             trace = t @ backoff_trace req (minTimeout opts) (factor opts) k
               (replicate n (Inl (AwsError ''TooManyRequestsException'')) @ [r])\<rparr>)"
proof (induction m arbitrary: n k t)
  case 0
  then show ?case
    using assms(2,3)
    by (auto simp add: input_def call_def rate_limiting_def rateLimited_def split: sum.splits)
next
  case (Suc m)
  show ?case
  proof (cases n)
    case 0
    then show ?thesis
      using assms(2,3)
      by (auto simp add: input_def call_def rate_limiting_def rateLimited_def split: sum.splits)
  next
    case (Suc n')
    with Suc.prems have le: "n' \<le> m" by simp
    have "pRetry_from (input req) opts (Suc m) k \<lparr>remote = (n, s), trace = t\<rparr>
            = pRetry_from (input req) opts m (Suc k)
                \<lparr>remote = (n', s),
                 trace = t @ [Call req (Inl (AwsError ''TooManyRequestsException'')),
                              Sleep (minTimeout opts * factor opts ^ k)]\<rparr>"
      using Suc by (simp add: input_def call_def rate_limiting_def sleep_def)
    also note Suc.IH [OF le]
    finally show ?thesis
      using Suc by (simp add: backoff_trace_limited)
  qed
qed

lemma throttle_rate_limiting:
  assumes "client req s = (r, s1)" and "\<not> rateLimited r" and "n \<le> 5"
  shows "throttleAwsRequestRequest (call (rate_limiting client) req) \<lparr>remote = (n, s), trace = t\<rparr>
      = (r, \<lparr>remote = (0, s1),
             trace = t @ backoff_trace req 1000 2 0
               (replicate n (Inl (AwsError ''TooManyRequestsException'')) @ [r])\<rparr>)"
  using pRetry_from_rate_limiting [where client = client and req = req and s = s and r = r
      and ?s1.0 = s1 and n = n and m = 5 and k = 0 and t = t
      and opts = "\<lparr>retries = 5, minTimeout = 1000, factor = 2\<rparr>"] assms
  by (simp add: throttleAwsRequestRequest_def retry_def pRetry_def no_opts_def)

lemma replicate_4: "replicate 4 x = [x, x, x, x]"
  by (simp add: numeral_eq_Suc)

lemma replicate_5: "replicate 5 x = [x, x, x, x, x]"
  by (simp add: numeral_eq_Suc)

lemma throttle_rate_limited_4:
  "throttleAwsRequestRequest (call (rate_limiting always_done) (GetResources ''api''))
       \<lparr>remote = (4, ()), trace = []\<rparr>
     = (Inr Done,
        \<lparr>remote = (0, ()),
         trace = backoff_trace (GetResources ''api'') 1000 2 0
           [Inl (AwsError ''TooManyRequestsException''), Inl (AwsError ''TooManyRequestsException''),
            Inl (AwsError ''TooManyRequestsException''), Inl (AwsError ''TooManyRequestsException''),
            Inr Done]\<rparr>)"
  using throttle_rate_limiting [where client = always_done and req = "GetResources ''api''"
      and s = "()" and r = "Inr Done" and ?s1.0 = "()" and n = 4 and t = "[]"]
  by (simp add: always_done_def rateLimited_def replicate_4 del: backoff_trace.simps)

theorem throttleAwsRequestRequest_attempts_witness:
  "fst (throttleAwsRequestRequest (call (rate_limiting always_done) (GetResources ''api''))
          \<lparr>remote = (4, ()), trace = []\<rparr>) = Inr Done
   \<and> (\<exists>outs. outs \<noteq> [] \<and> length outs \<le> 6 \<and> last outs = Inr Done
        \<and> trace (snd (throttleAwsRequestRequest
              (call (rate_limiting always_done) (GetResources ''api''))
              \<lparr>remote = (4, ()), trace = []\<rparr>))
            = backoff_trace (GetResources ''api'') 1000 2 0 outs)"
proof -
  let ?w = "\<lparr>remote = (4::nat, ()), trace = []\<rparr>"
  let ?run = "throttleAwsRequestRequest (call (rate_limiting always_done) (GetResources ''api'')) ?w"
  from throttleAwsRequestRequest_attempts
    [of "rate_limiting always_done" "GetResources ''api''" ?w]
  obtain outs where o:
    "outs \<noteq> [] \<and> length outs \<le> 6
     \<and> (\<forall>out \<in> set (butlast outs). rateLimited out)
     \<and> (length outs < 6 \<longrightarrow> \<not> rateLimited (last outs))
     \<and> fst ?run = last outs
     \<and> trace (snd ?run) = trace ?w @ backoff_trace (GetResources ''api'') 1000 2 0 outs" ..
  have fin: "fst ?run = Inr Done" by (simp only: throttle_rate_limited_4 fst_conv)
  have o1: "outs \<noteq> []" using o by (rule conjunct1)
  have o2: "length outs \<le> 6" using o by (elim conjE)
  have o5: "fst ?run = last outs" using o by (elim conjE)
  have o6: "trace (snd ?run) = trace ?w @ backoff_trace (GetResources ''api'') 1000 2 0 outs"
    using o by (elim conjE)
  have l: "last outs = Inr Done" using o5 fin by (rule trans [OF sym])
  have w: "trace ?w = []" by (simp only: world.simps)
  have t: "trace (snd ?run) = backoff_trace (GetResources ''api'') 1000 2 0 outs"
    using o6 by (simp only: w append_Nil)
  show ?thesis
  proof (intro conjI exI [of _ outs])
  qed (fact fin o1 o2 l t)+
qed

text \<open>
  The claim's bound of 5 attempts fails: a request that is rate-limited five times is
  attempted a sixth time, 16 seconds after the fifth, and then succeeds.
\<close>

theorem throttleAwsRequestRequest_sixth_attempt_counterexample:
  "throttleAwsRequestRequest (call (rate_limiting always_done) (GetResources ''api''))
       \<lparr>remote = (5, ()), trace = []\<rparr>
     = (Inr Done,
        \<lparr>remote = (0, ()),
         trace =
           [Call (GetResources ''api'') (Inl (AwsError ''TooManyRequestsException'')), Sleep 1000,
            Call (GetResources ''api'') (Inl (AwsError ''TooManyRequestsException'')), Sleep 2000,
            Call (GetResources ''api'') (Inl (AwsError ''TooManyRequestsException'')), Sleep 4000,
            Call (GetResources ''api'') (Inl (AwsError ''TooManyRequestsException'')), Sleep 8000,
            Call (GetResources ''api'') (Inl (AwsError ''TooManyRequestsException'')), Sleep 16000,
            Call (GetResources ''api'') (Inr Done)]\<rparr>)"
  using throttle_rate_limiting [where client = always_done and req = "GetResources ''api''"
      and s = "()" and r = "Inr Done" and ?s1.0 = "()" and n = 5 and t = "[]"]
  by (simp add: always_done_def rateLimited_def replicate_5)

section \<open>The scheduler's guarantee\<close>

definition sched_inv :: "'op scheduler \<Rightarrow> bool" where
  "sched_inv s \<longleftrightarrow>
     concurrency s = int (length (inflight s))
     \<and> concurrency s \<le> MAX_CONCURRENCY
     \<and> spaced (dispatched s)
     \<and> (\<forall>t \<in> set (dispatched s). t \<le> clock s)
     \<and> (dispatched s \<noteq> [] \<longrightarrow>
          (case timeout s of
             None \<Rightarrow> last (dispatched s) + MIN_DELAY \<le> clock s
           | Some t \<Rightarrow> last (dispatched s) + MIN_DELAY \<le> t))"

lemma spaced_snoc:
  "spaced (ts @ [t]) \<longleftrightarrow> spaced ts \<and> (ts \<noteq> [] \<longrightarrow> last ts + MIN_DELAY \<le> t)"
  by (induction ts rule: spaced.induct) auto

lemma sched_inv_initial: "sched_inv (initial t0)"
  by (simp add: sched_inv_def initial_def MAX_CONCURRENCY_def)

lemma sched_inv_processNext:
  assumes "sched_inv s"
    and "dispatched s \<noteq> [] \<longrightarrow> last (dispatched s) + MIN_DELAY \<le> clock s"
  shows "sched_inv (processNextQueueElement s)"
proof (cases "requestQueue s = []")
  case True
  with assms show ?thesis
    by (simp add: sched_inv_def processNextQueueElement_def)
next
  case False
  show ?thesis
  proof (cases "concurrency s < MAX_CONCURRENCY")
    case True
    with False assms show ?thesis
      by (auto simp add: sched_inv_def processNextQueueElement_def Let_def spaced_snoc
            MAX_CONCURRENCY_def)
  next
    case no: False
    have "last (dispatched s) \<le> clock s" if "dispatched s \<noteq> []"
      using assms(1) that by (simp add: sched_inv_def)
    with False no assms show ?thesis
      by (auto simp add: sched_inv_def processNextQueueElement_def Let_def)
  qed
qed

lemma sched_inv_same_timing:
  assumes "sched_inv s" and "timeout s' = timeout s" and "clock s' = clock s"
    and "dispatched s' = dispatched s"
    and "concurrency s' = int (length (inflight s'))"
    and "concurrency s' \<le> MAX_CONCURRENCY"
  shows "sched_inv s'"
  using assms by (auto simp add: sched_inv_def split: option.splits)

lemma sched_inv_queue:
  "sched_inv (s\<lparr>requestQueue := q\<rparr>) \<longleftrightarrow> sched_inv s"
  by (auto simp add: sched_inv_def split: option.splits)

lemma sched_inv_step:
  assumes "sched_inv s" and "step ev s = Some s'"
  shows "sched_inv s'"
proof (cases ev)
  case (Submit operation)
  let ?s1 = "s\<lparr>requestQueue := requestQueue s @ [operation]\<rparr>"
  have i1: "sched_inv ?s1" using assms(1) by (simp add: sched_inv_queue)
  show ?thesis
  proof (cases "timeout s")
    case None
    with assms(1) have "dispatched ?s1 \<noteq> [] \<longrightarrow> last (dispatched ?s1) + MIN_DELAY \<le> clock ?s1"
      by (simp add: sched_inv_def)
    from sched_inv_processNext [OF i1 this] assms(2) Submit None show ?thesis
      by (simp add: submit_def)
  next
    case (Some t)
    with assms(2) Submit i1 show ?thesis by (simp add: submit_def)
  qed
next
  case Fire
  with assms(2) obtain t where t: "timeout s = Some t" "t \<le> clock s"
    and s': "s' = processNextQueueElement s"
    by (auto split: option.splits if_splits)
  from assms(1) t have "dispatched s \<noteq> [] \<longrightarrow> last (dispatched s) + MIN_DELAY \<le> clock s"
    by (auto simp add: sched_inv_def)
  from sched_inv_processNext [OF assms(1) this] s' show ?thesis by simp
next
  case (Complete operation)
  with assms(2) have n: "operation \<in> set (inflight s)" and s': "s' = completed operation s"
    by (auto split: if_splits)
  from n have l: "length (remove1 operation (inflight s)) = length (inflight s) - 1"
    by (simp add: length_remove1)
  from n have pos: "length (inflight s) > 0" by (cases "inflight s") auto
  from assms(1) have c: "concurrency s = int (length (inflight s))"
    and m: "concurrency s \<le> MAX_CONCURRENCY"
    by (simp_all add: sched_inv_def)
  from pos have d: "int (length (inflight s) - 1) = int (length (inflight s)) - 1"
    by linarith
  have c': "concurrency s' = int (length (inflight s'))"
    using l d c by (simp add: s' completed_def)
  have m': "concurrency s' \<le> MAX_CONCURRENCY"
    using s' m by (simp add: completed_def)
  show ?thesis
    by (rule sched_inv_same_timing [OF assms(1) _ _ _ c' m']) (simp_all add: s' completed_def)
next
  case (Tick d)
  with assms(2) have s': "s' = s\<lparr>clock := clock s + d\<rparr>" by simp
  have "t \<le> clock s + d" if "t \<in> set (dispatched s)" for t
    using assms(1) that by (force simp add: sched_inv_def)
  with assms(1) show ?thesis
    by (auto simp add: s' sched_inv_def split: option.splits)
qed

lemma sched_inv_run:
  "sched_inv s \<Longrightarrow> run evs s = Some s' \<Longrightarrow> sched_inv s'"
  by (induction evs arbitrary: s) (auto split: option.splits dest: sched_inv_step)

text \<open>
  C9. After any sequence of submissions, timer callbacks, completions and passing of
  time, starting from the idle scheduler, at most \<open>MAX_CONCURRENCY\<close> (1) operations
  are in flight, and any two consecutive dispatch starts are at least \<open>MIN_DELAY\<close>
  (200 ms) apart.
\<close>

theorem scheduler_throttles:
  assumes "run evs (initial t0) = Some s"
  shows "int (length (inflight s)) \<le> MAX_CONCURRENCY \<and> concurrency s \<le> MAX_CONCURRENCY
       \<and> spaced (dispatched s)"
proof -
  from sched_inv_run [OF sched_inv_initial assms] have "sched_inv s" .
  then show ?thesis by (simp add: sched_inv_def MAX_CONCURRENCY_def)
qed

text \<open>
  An instance: three operations; the second waits for the timer after the first, the
  third is submitted to the idle scheduler and starts at once, 205 ms after the second.
\<close>

lemma busy_run_result:
  "run busy_run (initial 0)
     = Some \<lparr>requestQueue = [], concurrency = 1, timeout = Some 605, clock = 405,
              inflight = [3], dispatched = [0, 200, 405]\<rparr>"
  by (simp add: busy_run_def initial_def submit_def processNextQueueElement_def completed_def
        MAX_CONCURRENCY_def MIN_DELAY_def Let_def)

theorem scheduler_throttles_witness:
  "run busy_run (initial 0)
     = Some \<lparr>requestQueue = [], concurrency = 1, timeout = Some 605, clock = 405,
              inflight = [3], dispatched = [0, 200, 405]\<rparr>
   \<and> int (length [3::nat]) \<le> MAX_CONCURRENCY
   \<and> spaced [0, 200, 405]"
  using scheduler_throttles [OF busy_run_result] busy_run_result by simp

section \<open>A request that is not rate-limited is attempted once\<close>

lemma throttle_once:
  assumes "client req (remote w) = (r, s')" and "\<not> rateLimited r"
  shows "throttleAwsRequestRequest (call client req) w
           = (r, w\<lparr>remote := s', trace := trace w @ [Call req r]\<rparr>)"
  using assms
  by (auto simp add: throttleAwsRequestRequest_def retry_def pRetry_def no_opts_def
        call_def rateLimited_def numeral_eq_Suc split: sum.splits)

section \<open>Existence check and ownership\<close>

text \<open>
  C10. When the throttled method lookup inside \<open>endpointExists\<close> fails with an error
  whose code is not \<open>NotFoundException\<close>, \<open>endpointExists\<close> returns \<open>undefined\<close>
  instead of failing, and \<open>validateEndpoint\<close> returns the validated endpoint whatever
  the recorded state says about its ownership: the conflict check is skipped and the
  remote failure is not propagated.
\<close>

theorem endpointExists_swallows_lookup_failure:
  assumes "validateEndpointObject endpoint apiId stage region = Inr v"
    and "getPathId apig apiId (Some (endpoint_of v)) w = (Inr (Some rid), w1)"
    and "rid \<noteq> []"
    and "throttleAwsRequestRequest
           (call apig (GetMethod apiId rid (endpoint_method (endpoint_of v)))) w1 = (Inl e, w2)"
    and "code e \<noteq> Some ''NotFoundException''"
  shows "endpointExists apig apiId (endpoint_of v) w = (Inr None, w2)
       \<and> validateEndpoint apig apiId endpoint st stage region w = (Inr v, w2)"
proof -
  have ex: "endpointExists apig apiId (endpoint_of v) w = (Inr None, w2)"
    using assms(2-5) by (simp add: endpointExists_def)
  then show ?thesis
    using assms(1) by (simp add: validateEndpoint_def)
qed

lemma validate_get_old:
  "validateEndpointObject get_old ''api'' ''dev'' ''eu-west-1'' = Inr get_old_valid"
  by (simp add: get_old_def get_old_valid_def validate_eval)

lemma endpoint_of_get_old:
  "endpoint_of get_old_valid = path_only ''/old'' \<lparr>endpoint_method := Some ''GET''\<rparr>"
  by (simp add: endpoint_of_def get_old_valid_def path_only_def)

lemma not_rateLimited_Inr [simp]: "\<not> rateLimited (Inr v)"
  by (simp add: rateLimited_def)

lemma getPathId_old_unavailable:
  "getPathId lookup_unavailable ''api'' (Some (endpoint_of get_old_valid))
       \<lparr>remote = old_gateway, trace = []\<rparr>
     = (Inr (Some ''r1''), \<lparr>remote = old_gateway, trace = [old_listing]\<rparr>)"
proof -
  have "throttleAwsRequestRequest (call lookup_unavailable (GetResources ''api''))
          \<lparr>remote = old_gateway, trace = []\<rparr>
        = (Inr (Resources [root_resource, old_resource]),
           \<lparr>remote = old_gateway, trace = [old_listing]\<rparr>)"
    by (subst throttle_once [where r = "Inr (Resources [root_resource, old_resource])"
          and s' = old_gateway])
       (simp_all add: old_gateway_def old_listing_def)
  then show ?thesis
    by (simp add: getPathId_def endpoint_of_get_old path_only_def
          root_resource_def old_resource_def)
qed

lemma getMethod_old_unavailable:
  "throttleAwsRequestRequest
       (call lookup_unavailable
          (GetMethod ''api'' ''r1'' (endpoint_method (endpoint_of get_old_valid))))
       \<lparr>remote = old_gateway, trace = [old_listing]\<rparr>
     = (Inl (AwsError ''ServiceUnavailableException''),
        \<lparr>remote = old_gateway,
         trace = [old_listing,
                  Call (GetMethod ''api'' ''r1'' (Some ''GET''))
                    (Inl (AwsError ''ServiceUnavailableException''))]\<rparr>)"
  by (subst throttle_once [where r = "Inl (AwsError ''ServiceUnavailableException'')"
        and s' = old_gateway])
     (simp_all add: endpoint_of_get_old path_only_def rateLimited_def)

text \<open>
  An instance: \<open>GET /old\<close> is bound on the remote and is not recorded in the state, yet
  validation succeeds when the method lookup answers with a server-side error.
\<close>

theorem endpointExists_swallows_lookup_failure_witness:
  "endpointExists lookup_unavailable ''api'' (endpoint_of get_old_valid)
       \<lparr>remote = old_gateway, trace = []\<rparr>
     = (Inr None,
        \<lparr>remote = old_gateway,
         trace = [old_listing,
                  Call (GetMethod ''api'' ''r1'' (Some ''GET''))
                    (Inl (AwsError ''ServiceUnavailableException''))]\<rparr>)
   \<and> validateEndpoint lookup_unavailable ''api'' get_old \<lparr>state_endpoints = Some []\<rparr>
         ''dev'' ''eu-west-1'' \<lparr>remote = old_gateway, trace = []\<rparr>
     = (Inr get_old_valid,
        \<lparr>remote = old_gateway,
         trace = [old_listing,
                  Call (GetMethod ''api'' ''r1'' (Some ''GET''))
                    (Inl (AwsError ''ServiceUnavailableException''))]\<rparr>)"
proof -
  have r: "''r1'' \<noteq> []" by simp
  have c: "code (AwsError ''ServiceUnavailableException'') \<noteq> Some ''NotFoundException''"
    by simp
  show ?thesis
    by (rule endpointExists_swallows_lookup_failure
          [OF validate_get_old getPathId_old_unavailable r getMethod_old_unavailable c])
qed

text \<open>
  With a working lookup the same declaration is refused, since \<open>GET /old\<close> exists on the
  remote and the state does not record it.
\<close>

lemma validateEndpoint_foreign_endpoint:
  "fst (validateEndpoint apigateway ''api'' get_old \<lparr>state_endpoints = Some []\<rparr>
          ''dev'' ''eu-west-1'' \<lparr>remote = old_gateway, trace = []\<rparr>)
     = Inl (Error ''endpoint already exists in provider'')"
proof -
  have l: "throttleAwsRequestRequest (call apigateway (GetResources ''api''))
          \<lparr>remote = old_gateway, trace = []\<rparr>
        = (Inr (Resources [root_resource, old_resource]),
           \<lparr>remote = old_gateway, trace = [old_listing]\<rparr>)"
    by (subst throttle_once [where r = "Inr (Resources [root_resource, old_resource])"
          and s' = old_gateway])
       (simp_all add: old_gateway_def old_listing_def)
  have m: "throttleAwsRequestRequest (call apigateway (GetMethod ''api'' ''r1'' (Some ''GET'')))
          \<lparr>remote = old_gateway, trace = [old_listing]\<rparr>
        = (Inr Done,
           \<lparr>remote = old_gateway,
            trace = [old_listing, Call (GetMethod ''api'' ''r1'' (Some ''GET'')) (Inr Done)]\<rparr>)"
    by (subst throttle_once [where r = "Inr Done" and s' = old_gateway])
       (simp_all add: old_gateway_def has_method_def root_resource_def old_resource_def)
  show ?thesis
    by (simp add: validateEndpoint_def validate_get_old endpointExists_def getPathId_def l m
          endpoint_of_get_old path_only_def root_resource_def old_resource_def myEndpoint_def)
qed

section \<open>Path creation\<close>

lemma throttle_failure_trace:
  assumes "throttleAwsRequestRequest (call apig req) w = (r, w')"
  shows "\<exists>outs. outs \<noteq> [] \<and> trace w' = trace w @ backoff_trace req 1000 2 0 outs"
proof -
  obtain outs where o: "outs \<noteq> []"
    and t: "trace (snd (throttleAwsRequestRequest (call apig req) w))
         = trace w @ backoff_trace req 1000 2 0 outs"
    by (rule throttle_trace [of apig req w])
  have "trace w' = trace w @ backoff_trace req 1000 2 0 outs"
    using t by (simp only: assms snd_conv)
  with o show ?thesis by blast
qed

text \<open>
  C5 (amended). \<open>createPath\<close> does not tolerate a failed create call. When the path is
  not in the listing fetched at its start and the create-resource call fails, for
  whatever reason (the node already existing included), \<open>createPath\<close> fails with that
  same error; the attempts of the create call are the last thing it does, so the listing
  is not queried again.
\<close>

theorem createPath_propagates_create_failure:
  assumes "getPathId apig apiId (Some endpoint) w = (Inr pathId, w1)"
    and "\<not> truthy_str pathId"
    and "path endpoint = Some p"
    and "(if join CHR ''/'' (butlast (split CHR ''/'' p)) = []
          then getPathId apig apiId None w1
          else createPath apig apiId (path_only (join CHR ''/'' (butlast (split CHR ''/'' p)))) w1)
         = (Inr parent, w2)"
    and "throttleAwsRequestRequest
           (call apig (CreateResource apiId parent (last (split CHR ''/'' p)))) w2 = (Inl e, w3)"
  shows "createPath apig apiId endpoint w = (Inl e, w3)
       \<and> (\<exists>outs. outs \<noteq> []
            \<and> trace w3 = trace w2
                 @ backoff_trace (CreateResource apiId parent (last (split CHR ''/'' p))) 1000 2 0 outs)"
proof
  show "createPath apig apiId endpoint w = (Inl e, w3)"
    by (subst createPath.simps)
       (simp only: assms prod.case sum.case if_False option.case Let_def)
  show "\<exists>outs. outs \<noteq> []
            \<and> trace w3 = trace w2
                 @ backoff_trace (CreateResource apiId parent (last (split CHR ''/'' p))) 1000 2 0 outs"
    by (rule throttle_failure_trace [OF assms(5)])
qed

lemma racing_first_listing:
  "getPathId racing ''api'' (Some (path_only ''/a''))
       \<lparr>remote = (Some a_resource, root_gateway), trace = []\<rparr>
     = (Inr None,
        \<lparr>remote = (None, raced_gateway), trace = [race_listing1]\<rparr>)"
proof -
  have "throttleAwsRequestRequest (call racing (GetResources ''api''))
          \<lparr>remote = (Some a_resource, root_gateway), trace = []\<rparr>
        = (Inr (Resources [root_resource]),
           \<lparr>remote = (None, raced_gateway), trace = [race_listing1]\<rparr>)"
    by (subst throttle_once [where r = "Inr (Resources [root_resource])"
          and s' = "(None, raced_gateway)"])
       (simp_all add: root_gateway_def raced_gateway_def race_listing1_def race_listing2_def race_conflict_def)
  then show ?thesis
    by (simp add: getPathId_def path_only_def root_resource_def)
qed

lemma racing_root_lookup:
  "getPathId racing ''api'' None \<lparr>remote = (None, raced_gateway), trace = [race_listing1]\<rparr>
     = (Inr (Some ''root''),
        \<lparr>remote = (None, raced_gateway), trace = [race_listing1, race_listing2]\<rparr>)"
proof -
  have "throttleAwsRequestRequest (call racing (GetResources ''api''))
          \<lparr>remote = (None, raced_gateway), trace = [race_listing1]\<rparr>
        = (Inr (Resources [root_resource, a_resource]),
           \<lparr>remote = (None, raced_gateway), trace = [race_listing1, race_listing2]\<rparr>)"
    by (subst throttle_once [where r = "Inr (Resources [root_resource, a_resource])"
          and s' = "(None, raced_gateway)"])
       (simp_all add: raced_gateway_def race_listing1_def race_listing2_def race_conflict_def)
  then show ?thesis
    by (simp add: getPathId_def root_resource_def)
qed

lemma racing_create_conflict:
  "throttleAwsRequestRequest (call racing (CreateResource ''api'' (Some ''root'') ''a''))
       \<lparr>remote = (None, raced_gateway), trace = [race_listing1, race_listing2]\<rparr>
     = (Inl (AwsError ''ConflictException''),
        \<lparr>remote = (None, raced_gateway), trace = [race_listing1, race_listing2, race_conflict]\<rparr>)"
  by (subst throttle_once [where r = "Inl (AwsError ''ConflictException'')"
        and s' = "(None, raced_gateway)"])
     (simp_all add: raced_gateway_def race_listing1_def race_listing2_def race_conflict_def root_resource_def a_resource_def
        child_path_def rateLimited_def)

lemma parent_of_a: "join CHR ''/'' (butlast (split CHR ''/'' ''/a'')) = []"
  by simp

lemma part_of_a: "last (split CHR ''/'' ''/a'') = ''a''"
  by simp

lemma createPath_race_run:
  "createPath racing ''api'' (path_only ''/a'')
         \<lparr>remote = (Some a_resource, root_gateway), trace = []\<rparr>
       = (Inl (AwsError ''ConflictException''),
          \<lparr>remote = (None, raced_gateway), trace = [race_listing1, race_listing2, race_conflict]\<rparr>)"
proof -
  have p: "path (path_only ''/a'') = Some ''/a''" by (simp add: path_only_def)
  show ?thesis
    by (subst createPath.simps)
       (simp add: racing_first_listing p Let_def racing_root_lookup racing_create_conflict)
qed

theorem createPath_propagates_create_failure_witness:
  "path (path_only ''/a'') = Some ''/a''
   \<and> createPath racing ''api'' (path_only ''/a'')
         \<lparr>remote = (Some a_resource, root_gateway), trace = []\<rparr>
       = (Inl (AwsError ''ConflictException''),
          \<lparr>remote = (None, raced_gateway), trace = [race_listing1, race_listing2, race_conflict]\<rparr>)"
proof -
  have p: "path (path_only ''/a'') = Some ''/a''" by (simp add: path_only_def)
  have n: "\<not> truthy_str None" by simp
  have parent: "(if join CHR ''/'' (butlast (split CHR ''/'' ''/a'')) = []
          then getPathId racing ''api'' None
                 \<lparr>remote = (None, raced_gateway), trace = [race_listing1]\<rparr>
          else createPath racing ''api''
                 (path_only (join CHR ''/'' (butlast (split CHR ''/'' ''/a''))))
                 \<lparr>remote = (None, raced_gateway), trace = [race_listing1]\<rparr>)
         = (Inr (Some ''root''),
            \<lparr>remote = (None, raced_gateway), trace = [race_listing1, race_listing2]\<rparr>)"
    by (simp only: parent_of_a if_True simp_thms racing_root_lookup)
  have create: "throttleAwsRequestRequest
       (call racing (CreateResource ''api'' (Some ''root'') (last (split CHR ''/'' ''/a''))))
       \<lparr>remote = (None, raced_gateway), trace = [race_listing1, race_listing2]\<rparr>
     = (Inl (AwsError ''ConflictException''),
        \<lparr>remote = (None, raced_gateway), trace = [race_listing1, race_listing2, race_conflict]\<rparr>)"
    by (simp only: part_of_a racing_create_conflict)
  from createPath_propagates_create_failure [OF racing_first_listing n p parent create]
  have "createPath racing ''api'' (path_only ''/a'')
         \<lparr>remote = (Some a_resource, root_gateway), trace = []\<rparr>
       = (Inl (AwsError ''ConflictException''),
          \<lparr>remote = (None, raced_gateway), trace = [race_listing1, race_listing2, race_conflict]\<rparr>)"
    by (rule conjunct1)
  with p show ?thesis by (rule conjI)
qed

text \<open>
  The claim fails when a concurrent creator adds \<open>/a\<close> between the listing and the
  create call: \<open>createPath\<close> fails with the conflict instead of returning the id
  \<open>ra\<close> of the existing node, and its last request is the failed create call.
\<close>

theorem createPath_race_counterexample:
  "fst (createPath racing ''api'' (path_only ''/a'')
         \<lparr>remote = (Some a_resource, root_gateway), trace = []\<rparr>)
     = Inl (AwsError ''ConflictException'')
   \<and> trace (snd (createPath racing ''api'' (path_only ''/a'')
         \<lparr>remote = (Some a_resource, root_gateway), trace = []\<rparr>))
     = [Call (GetResources ''api'') (Inr (Resources [root_resource])),
        Call (GetResources ''api'') (Inr (Resources [root_resource, a_resource])),
        Call (CreateResource ''api'' (Some ''root'') ''a'') (Inl (AwsError ''ConflictException''))]"
  by (simp add: createPath_race_run race_listing1_def race_listing2_def race_conflict_def)

section \<open>Integration conflicts\<close>

lemma rateLimited_conflict [simp]: "\<not> rateLimited (Inl (AwsError ''ConflictException''))"
  by (simp add: rateLimited_def)

lemma rateLimited_notFound [simp]: "\<not> rateLimited (Inl (AwsError ''NotFoundException''))"
  by (simp add: rateLimited_def)

lemma conflict_trace_Suc:
  "conflict_trace (Suc n) params =
     Call (PutIntegration params) (Inl (AwsError ''ConflictException'')) # Sleep 2000
       # conflict_trace n params"
  by (simp add: conflict_trace_def)

lemma createIntegration_conflicts:
  "createIntegration (conflicting client) lambda apiId endpoint \<lparr>remote = (n, s), trace = t\<rparr>
     = createIntegration (conflicting client) lambda apiId endpoint
         \<lparr>remote = (0, s), trace = t @ conflict_trace n (integrationParams_of apiId endpoint)\<rparr>"
proof (induction n arbitrary: t)
  case 0
  show ?case by (simp add: conflict_trace_def)
next
  case (Suc n)
  let ?req = "PutIntegration (integrationParams_of apiId endpoint)"
  let ?conflict = "Inl (AwsError ''ConflictException'') :: error + response"
  have put: "throttleAwsRequestRequest (call (conflicting client) ?req)
               \<lparr>remote = (Suc n, s), trace = t\<rparr>
             = (?conflict, \<lparr>remote = (n, s), trace = t @ [Call ?req ?conflict]\<rparr>)"
    by (subst throttle_once [where r = ?conflict and s' = "(n, s)"]) simp_all
  have "createIntegration (conflicting client) lambda apiId endpoint
          \<lparr>remote = (Suc n, s), trace = t\<rparr>
        = createIntegration (conflicting client) lambda apiId endpoint
          \<lparr>remote = (n, s), trace = t @ [Call ?req ?conflict, Sleep 2000]\<rparr>"
    by (subst createIntegration.simps) (simp add: put sleep_def)
  also note Suc.IH
  finally show ?case by (simp add: conflict_trace_Suc)
qed

lemma createIntegration_fatal:
  assumes "throttleAwsRequestRequest
             (call apig (PutIntegration (integrationParams_of apiId endpoint))) w = (Inl e, w1)"
    and "code e \<noteq> Some ''ConflictException''"
  shows "createIntegration apig lambda apiId endpoint w = Some (Inl (wrapError e), w1)"
  by (subst createIntegration.simps) (simp add: assms)

text \<open>
  C6 (amended). Every integration put that fails with a conflict is followed by the
  2-second cool-down and by one more put, whatever the number of conflicts before it:
  on a remote that answers the next \<open>n\<close> puts with a conflict, \<open>createIntegration\<close> runs
  through \<open>n\<close> conflicts and cool-downs and goes on as on a remote without conflicts.
  A put that fails with any other classification makes \<open>createIntegration\<close> fail with
  that error, wrapped in a fresh \<open>Error\<close>.
\<close>

theorem createIntegration_retries_every_conflict:
  "createIntegration (conflicting client) lambda apiId endpoint \<lparr>remote = (n, s), trace = t\<rparr>
     = createIntegration (conflicting client) lambda apiId endpoint
         \<lparr>remote = (0, s), trace = t @ conflict_trace n (integrationParams_of apiId endpoint)\<rparr>
   \<and> (throttleAwsRequestRequest
         (call apig (PutIntegration (integrationParams_of apiId endpoint))) w = (Inl e, w1)
       \<and> code e \<noteq> Some ''ConflictException''
       \<longrightarrow> createIntegration apig lambda' apiId endpoint w = Some (Inl (wrapError e), w1))"
proof (intro conjI impI)
  show "createIntegration (conflicting client) lambda apiId endpoint
          \<lparr>remote = (n, s), trace = t\<rparr>
     = createIntegration (conflicting client) lambda apiId endpoint
         \<lparr>remote = (0, s), trace = t @ conflict_trace n (integrationParams_of apiId endpoint)\<rparr>"
    by (rule createIntegration_conflicts)
next
  assume "throttleAwsRequestRequest
         (call apig (PutIntegration (integrationParams_of apiId endpoint))) w = (Inl e, w1)
       \<and> code e \<noteq> Some ''ConflictException''"
  then show "createIntegration apig lambda' apiId endpoint w = Some (Inl (wrapError e), w1)"
    by (elim conjE) (rule createIntegration_fatal)
qed

lemma integrationParams_proxy:
  "ip_resourceId (integrationParams_of apiId proxy_endpoint) = Some ''r1''"
  "ip_httpMethod (integrationParams_of apiId proxy_endpoint) = Some ''GET''"
  by (simp_all add: integrationParams_of_def proxy_endpoint_def Let_def)

lemma integrationParams_missing:
  "ip_resourceId (integrationParams_of apiId missing_endpoint) = Some ''r1''"
  "ip_httpMethod (integrationParams_of apiId missing_endpoint) = Some ''POST''"
  by (simp_all add: integrationParams_of_def missing_endpoint_def Let_def)

lemma has_method_old:
  "has_method (gw_resources old_gateway) (Some ''r1'') (Some ''GET'')"
  "\<not> has_method (gw_resources old_gateway) (Some ''r1'') (Some ''POST'')"
  by (simp_all add: has_method_def old_gateway_def root_resource_def old_resource_def)

lemma createIntegration_no_conflict:
  "createIntegration (conflicting apigateway) lambda ''api'' proxy_endpoint
       \<lparr>remote = (0, old_gateway), trace = t\<rparr>
     = Some (Inr proxy_endpoint,
         \<lparr>remote = (0, old_gateway),
          trace = t @ [Call (PutIntegration (integrationParams_of ''api'' proxy_endpoint))
                         (Inr Done)]\<rparr>)"
proof -
  let ?req = "PutIntegration (integrationParams_of ''api'' proxy_endpoint)"
  have put: "throttleAwsRequestRequest (call (conflicting apigateway) ?req)
               \<lparr>remote = (0, old_gateway), trace = t\<rparr>
             = (Inr Done, \<lparr>remote = (0, old_gateway), trace = t @ [Call ?req (Inr Done)]\<rparr>)"
    by (subst throttle_once [where r = "Inr Done" and s' = "(0, old_gateway)"])
       (simp_all add: integrationParams_proxy has_method_old)
  have f: "\<not> truthy_str (endpoint_function proxy_endpoint)"
    by (simp add: proxy_endpoint_def)
  show ?thesis
    by (subst createIntegration.simps) (simp add: put f)
qed

lemma putIntegration_missing:
  "throttleAwsRequestRequest
       (call apigateway (PutIntegration (integrationParams_of ''api'' missing_endpoint)))
       \<lparr>remote = old_gateway, trace = []\<rparr>
     = (Inl (AwsError ''NotFoundException''),
        \<lparr>remote = old_gateway,
         trace = [Call (PutIntegration (integrationParams_of ''api'' missing_endpoint))
                    (Inl (AwsError ''NotFoundException''))]\<rparr>)"
  by (subst throttle_once [where r = "Inl (AwsError ''NotFoundException'')" and s' = old_gateway])
     (simp_all add: integrationParams_missing has_method_old)

theorem createIntegration_retries_every_conflict_witness:
  "createIntegration (conflicting apigateway) (conflicting apigateway) ''api'' proxy_endpoint
       \<lparr>remote = (4, old_gateway), trace = []\<rparr>
     = Some (Inr proxy_endpoint,
         \<lparr>remote = (0, old_gateway),
          trace = conflict_trace 4 (integrationParams_of ''api'' proxy_endpoint)
                  @ [Call (PutIntegration (integrationParams_of ''api'' proxy_endpoint))
                       (Inr Done)]\<rparr>)
   \<and> createIntegration apigateway apigateway ''api'' missing_endpoint
       \<lparr>remote = old_gateway, trace = []\<rparr>
     = Some (Inl (Error ''NotFoundException''),
         \<lparr>remote = old_gateway,
          trace = [Call (PutIntegration (integrationParams_of ''api'' missing_endpoint))
                    (Inl (AwsError ''NotFoundException''))]\<rparr>)"
proof
  have "createIntegration (conflicting apigateway) (conflicting apigateway) ''api'' proxy_endpoint
          \<lparr>remote = (4, old_gateway), trace = []\<rparr>
        = createIntegration (conflicting apigateway) (conflicting apigateway) ''api'' proxy_endpoint
          \<lparr>remote = (0, old_gateway),
           trace = [] @ conflict_trace 4 (integrationParams_of ''api'' proxy_endpoint)\<rparr>"
    by (rule createIntegration_retries_every_conflict
          [where client = apigateway and lambda = "conflicting apigateway" and n = 4
             and s = old_gateway and t = "[]" and apiId = "''api''"
             and endpoint = proxy_endpoint, THEN conjunct1])
  also have "\<dots> = Some (Inr proxy_endpoint,
         \<lparr>remote = (0, old_gateway),
          trace = ([] @ conflict_trace 4 (integrationParams_of ''api'' proxy_endpoint))
                  @ [Call (PutIntegration (integrationParams_of ''api'' proxy_endpoint))
                       (Inr Done)]\<rparr>)"
    by (rule createIntegration_no_conflict)
  finally show "createIntegration (conflicting apigateway) (conflicting apigateway) ''api''
       proxy_endpoint \<lparr>remote = (4, old_gateway), trace = []\<rparr>
     = Some (Inr proxy_endpoint,
         \<lparr>remote = (0, old_gateway),
          trace = conflict_trace 4 (integrationParams_of ''api'' proxy_endpoint)
                  @ [Call (PutIntegration (integrationParams_of ''api'' proxy_endpoint))
                       (Inr Done)]\<rparr>)"
    by (simp only: append_Nil)
next
  have c: "code (AwsError ''NotFoundException'') \<noteq> Some ''ConflictException''" by simp
  from createIntegration_retries_every_conflict
    [where apig = apigateway and lambda' = apigateway and apiId = "''api''"
       and endpoint = missing_endpoint and w = "\<lparr>remote = old_gateway, trace = []\<rparr>"
       and e = "AwsError ''NotFoundException''"
       and ?w1.0 = "\<lparr>remote = old_gateway,
         trace = [Call (PutIntegration (integrationParams_of ''api'' missing_endpoint))
                    (Inl (AwsError ''NotFoundException''))]\<rparr>", THEN conjunct2, rule_format]
    putIntegration_missing c
  show "createIntegration apigateway apigateway ''api'' missing_endpoint
       \<lparr>remote = old_gateway, trace = []\<rparr>
     = Some (Inl (Error ''NotFoundException''),
         \<lparr>remote = old_gateway,
          trace = [Call (PutIntegration (integrationParams_of ''api'' missing_endpoint))
                    (Inl (AwsError ''NotFoundException''))]\<rparr>)"
    by (simp only: wrapError.simps simp_thms)
qed

text \<open>
  The claim's bound of one retry fails: after two conflicts in a row the put is issued
  a third time, and the call succeeds.
\<close>

theorem createIntegration_second_retry_counterexample:
  "createIntegration (conflicting apigateway) (conflicting apigateway) ''api'' proxy_endpoint
       \<lparr>remote = (2, old_gateway), trace = []\<rparr>
     = Some (Inr proxy_endpoint,
         \<lparr>remote = (0, old_gateway),
          trace =
            [Call (PutIntegration (integrationParams_of ''api'' proxy_endpoint))
               (Inl (AwsError ''ConflictException'')), Sleep 2000,
             Call (PutIntegration (integrationParams_of ''api'' proxy_endpoint))
               (Inl (AwsError ''ConflictException'')), Sleep 2000,
             Call (PutIntegration (integrationParams_of ''api'' proxy_endpoint)) (Inr Done)]\<rparr>)"
proof -
  have two: "conflict_trace 2 params =
      [Call (PutIntegration params) (Inl (AwsError ''ConflictException'')), Sleep 2000,
       Call (PutIntegration params) (Inl (AwsError ''ConflictException'')), Sleep 2000]"
    for params
    by (simp add: conflict_trace_def numeral_2_eq_2)
  show ?thesis
    by (subst createIntegration_conflicts) (simp add: createIntegration_no_conflict two)
qed

section \<open>Garbage collection of a stale endpoint\<close>

lemma gc_stale_endpoint:
  assumes ep: "endpoint_method ep = Some ''GET''" "endpoint_id ep = Some ''r1''"
    and g: "gw_resources g = [root_resource, old_resource]"
  shows "removeOutdatedEndpoints apigateway ''api'' [] [ep] \<lparr>remote = g, trace = []\<rparr>
     = Some (Inr [ep],
         \<lparr>remote = g\<lparr>gw_resources := [root_resource, unbound_resource]\<rparr>,
          trace = [old_listing, method_deleted]\<rparr>)"
proof -
  let ?w0 = "\<lparr>remote = g, trace = []\<rparr>"
  let ?w1 = "\<lparr>remote = g, trace = [old_listing]\<rparr>"
  let ?w2 = "\<lparr>remote = g\<lparr>gw_resources := [root_resource, unbound_resource]\<rparr>,
             trace = [old_listing, method_deleted]\<rparr>"
  have c: "classify [] [ep] = ([ep], [])" by simp
  have listing: "throttleAwsRequestRequest (call apigateway (GetResources ''api'')) ?w0
        = (Inr (Resources [root_resource, old_resource]), ?w1)"
    by (subst throttle_once [where r = "Inr (Resources [root_resource, old_resource])"
          and s' = g])
       (simp_all add: g old_listing_def)
  have keep: "\<not> removable [root_resource, old_resource] ep"
    by (simp add: removable_def ep root_resource_def old_resource_def)
  have res: "removeResources apigateway ''api'' [ep] ?w0 = Some (Inr [], ?w1)"
    by (subst removeResources.simps) (simp add: listing keep)
  have del: "throttleAwsRequestRequest
               (call apigateway (DeleteMethod ''api'' (Some ''r1'') (Some ''GET''))) ?w1
        = (Inr Done, ?w2)"
    by (subst throttle_once [where r = "Inr Done"
          and s' = "g\<lparr>gw_resources := [root_resource, unbound_resource]\<rparr>"])
       (simp_all add: g has_method_def root_resource_def old_resource_def unbound_resource_def
          method_deleted_def)
  have meth: "removeMethods apigateway ''api'' [ep] ?w1 = (Inr [()], ?w2)"
    by (simp add: removeMethods_def removeMethod_def ep del)
  have auth: "removeAuthorizers apigateway ''api'' [] ?w2 = (Inr [], ?w2)"
    by (simp add: removeAuthorizers_def)
  show ?thesis
    by (simp add: removeOutdatedEndpoints_def c res meth auth)
qed

text \<open>
  C1 (the code at the failing input). With \<open>GET /old\<close> in the prior state and an empty
  desired set, the run lists the resources first, finds \<open>/old\<close> still bound to \<open>GET\<close>
  and issues no delete for it; only then is the method deleted. The node \<open>/old\<close>
  is left on the remote, without methods.
\<close>

theorem removeOutdatedEndpoints_keeps_stale_node:
  "removeOutdatedEndpoints apigateway ''api'' [] [plain_endpoint]
       \<lparr>remote = plain_gateway, trace = []\<rparr>
     = Some (Inr [plain_endpoint],
         \<lparr>remote = \<lparr>gw_resources = [root_resource, unbound_resource], gw_authorizers = []\<rparr>,
          trace = [Call (GetResources ''api'') (Inr (Resources [root_resource, old_resource])),
                   Call (DeleteMethod ''api'' (Some ''r1'') (Some ''GET'')) (Inr Done)]\<rparr>)"
  using gc_stale_endpoint [of plain_endpoint plain_gateway]
  by (simp add: plain_endpoint_def old_endpoint_def plain_gateway_def old_listing_def
        method_deleted_def)

section \<open>Which authorizers are detached\<close>

lemma find_None_iff_Bex: "find P xs = None \<longleftrightarrow> \<not> (\<exists>x \<in> set xs. P x)"
  by (auto simp add: find_None_iff)

text \<open>The loop of lines 584-598 computes the two selections.\<close>

lemma classify_stale:
  "classify endpoints stateEndpoints
     = (stale endpoints stateEndpoints,
        filter (\<lambda>e. matched endpoints e \<and> \<not> referenced endpoints e) stateEndpoints)"
  by (induction stateEndpoints)
     (auto simp add: Let_def find_None_iff_Bex stale_def matched_def referenced_def)

lemma detached_filter:
  "filter (\<lambda>e. truthy_str (authorizerId e))
       (filter (\<lambda>e. matched endpoints e \<and> \<not> referenced endpoints e) stateEndpoints)
     = detached endpoints stateEndpoints"
  by (auto simp add: detached_def intro: filter_cong)

lemma authorizer_requests_append:
  "authorizer_requests (evs @ evs') = authorizer_requests evs @ authorizer_requests evs'"
  by (induction evs rule: authorizer_requests.induct) simp_all

lemma attempts_quiet:
  assumes "authorizer_requests [Call req (Inr Done)] = []"
  shows "authorizer_requests (backoff_trace req mt f k outs) = []"
proof -
  have skip: "authorizer_requests (Call req out # evs) = authorizer_requests evs" for out evs
    using assms by (cases req) simp_all
  show ?thesis
  proof (induction outs arbitrary: k)
    case Nil
    show ?case by simp
  next
    case (Cons out outs)
    then show ?case by (cases "outs = []") (simp_all add: skip backoff_trace_Cons)
  qed
qed

lemma throttle_quiet:
  assumes "authorizer_requests [Call req (Inr Done)] = []"
    and "throttleAwsRequestRequest (call apig req) w = (r, w')"
  shows "\<exists>evs. trace w' = trace w @ evs \<and> authorizer_requests evs = []"
proof -
  obtain outs where
    "trace (snd (throttleAwsRequestRequest (call apig req) w))
           = trace w @ backoff_trace req 1000 2 0 outs"
    by (rule throttle_trace [of apig req w])
  with assms(2) have "trace w' = trace w @ backoff_trace req 1000 2 0 outs" by simp
  with attempts_quiet [OF assms(1)] show ?thesis by blast
qed

lemma promise_all_quiet:
  assumes "\<And>t w r w'. t \<in> set ts \<Longrightarrow> t w = (r, w')
             \<Longrightarrow> \<exists>evs. trace w' = trace w @ evs \<and> authorizer_requests evs = []"
    and "promise_all ts w = (r, w')"
  shows "\<exists>evs. trace w' = trace w @ evs \<and> authorizer_requests evs = []"
  using assms
proof (induction ts arbitrary: w r w')
  case Nil
  then show ?case by simp
next
  case (Cons t ts)
  obtain r1 w1 where a: "t w = (r1, w1)" by (cases "t w")
  obtain rs w2 where b: "promise_all ts w1 = (rs, w2)" by (cases "promise_all ts w1")
  from Cons.prems(2) a b have w': "w' = w2" by simp
  have "\<exists>evs. trace w1 = trace w @ evs \<and> authorizer_requests evs = []"
    by (rule Cons.prems(1) [of t w r1 w1]) (simp_all add: a)
  then obtain evs1 where
    e1: "trace w1 = trace w @ evs1" "authorizer_requests evs1 = []" by (elim exE conjE)
  have "\<exists>evs. trace w2 = trace w1 @ evs \<and> authorizer_requests evs = []"
  proof (rule Cons.IH [OF _ b])
    fix t' :: "('a, 'b) action" and v r' v'
    assume "t' \<in> set ts" and c: "t' v = (r', v')"
    then have "t' \<in> set (t # ts)" by simp
    from Cons.prems(1) [of t' v r' v', OF this c]
    show "\<exists>evs. trace v' = trace v @ evs \<and> authorizer_requests evs = []" .
  qed
  then obtain evs2 where
    e2: "trace w2 = trace w1 @ evs2" "authorizer_requests evs2 = []" by (elim exE conjE)
  show ?case
    by (rule exI [of _ "evs1 @ evs2"]) (simp add: w' e1 e2 authorizer_requests_append)
qed

lemma removeMethod_quiet:
  assumes "removeMethod apig apiId endpoint w = (r, w')"
  shows "\<exists>evs. trace w' = trace w @ evs \<and> authorizer_requests evs = []"
proof -
  let ?req = "DeleteMethod apiId (endpoint_id endpoint) (endpoint_method endpoint)"
  obtain r1 w1 where t: "throttleAwsRequestRequest (call apig ?req) w = (r1, w1)"
    by (cases "throttleAwsRequestRequest (call apig ?req) w")
  from assms t have "w' = w1"
    by (auto simp add: removeMethod_def split: sum.splits if_splits)
  with throttle_quiet [OF _ t] show ?thesis by simp
qed

lemma removeResource_quiet:
  assumes "removeResource apig apiId endpoint w = (r, w')"
  shows "\<exists>evs. trace w' = trace w @ evs \<and> authorizer_requests evs = []"
proof -
  let ?req = "DeleteResource apiId (endpoint_id endpoint)"
  obtain r1 w1 where t: "throttleAwsRequestRequest (call apig ?req) w = (r1, w1)"
    by (cases "throttleAwsRequestRequest (call apig ?req) w")
  from assms t have "w' = w1"
    by (auto simp add: removeResource_def split: sum.splits if_splits)
  with throttle_quiet [OF _ t] show ?thesis by simp
qed

lemma removeMethods_quiet:
  assumes "removeMethods apig apiId es w = (r, w')"
  shows "\<exists>evs. trace w' = trace w @ evs \<and> authorizer_requests evs = []"
proof (rule promise_all_quiet [OF _ assms [unfolded removeMethods_def]])
  fix t :: "('a, unit) action" and v r' v'
  assume "t \<in> set (map (removeMethod apig apiId) es)" and c: "t v = (r', v')"
  then obtain ep where "t = removeMethod apig apiId ep" by (auto simp only: set_map)
  with c show "\<exists>evs. trace v' = trace v @ evs \<and> authorizer_requests evs = []"
    by (simp only: removeMethod_quiet)
qed

lemma removeResources_quiet:
  assumes "removeResources apig apiId endpoints w = Some y"
  shows "\<exists>evs. trace (snd y) = trace w @ evs \<and> authorizer_requests evs = []"
  using assms
proof (rule removeResources.raw_induct [rotated 1], goal_cases)
  case (1 removeResources' apig apiId endpoints w y)
  note IH = "1"(1) and body = "1"(2)
  let ?req = "GetResources apiId"
  obtain r0 w1 where t: "throttleAwsRequestRequest (call apig ?req) w = (r0, w1)"
    by (cases "throttleAwsRequestRequest (call apig ?req) w")
  from throttle_quiet [OF _ t] obtain evs1 where
    e1: "trace w1 = trace w @ evs1" "authorizer_requests evs1 = []" by auto
  show ?case
  proof (cases r0)
    case (Inl e)
    with body t have "y = (Inl e, w1)" by simp
    with e1 show ?thesis by auto
  next
    case (Inr resp)
    show ?thesis
    proof (cases resp)
      case (Resources items)
      let ?sel = "filter (removable items) endpoints"
      show ?thesis
      proof (cases "?sel = []")
        case True
        with body t Inr Resources have "y = (Inr [], w1)" by simp
        with e1 show ?thesis by auto
      next
        case False
        obtain r2 w2 where p: "promise_all (map (removeResource apig apiId) ?sel) w1 = (r2, w2)"
          by (cases "promise_all (map (removeResource apig apiId) ?sel) w1")
        have "\<exists>evs. trace w2 = trace w1 @ evs \<and> authorizer_requests evs = []"
        proof (rule promise_all_quiet [OF _ p])
          fix t :: "('a, unit) action" and v r' v'
          assume "t \<in> set (map (removeResource apig apiId) ?sel)" and c: "t v = (r', v')"
          then obtain ep where "t = removeResource apig apiId ep" by (auto simp only: set_map)
          with c show "\<exists>evs. trace v' = trace v @ evs \<and> authorizer_requests evs = []"
            by (simp only: removeResource_quiet)
        qed
        then obtain evs2 where
          e2: "trace w2 = trace w1 @ evs2" "authorizer_requests evs2 = []" by auto
        show ?thesis
        proof (cases r2)
          case (Inl e)
          with body t Inr Resources False p have "y = (Inl e, w2)" by (simp add: Let_def)
          with e1 e2 show ?thesis
            by (intro exI [of _ "evs1 @ evs2"]) (simp add: authorizer_requests_append)
        next
          case (Inr rs)
          with body t \<open>r0 = Inr resp\<close> Resources False p
          have "removeResources' apig apiId endpoints w2 = Some y" by (simp add: Let_def)
          from IH [OF this] obtain evs3 where
            e3: "trace (snd y) = trace w2 @ evs3" "authorizer_requests evs3 = []"
            by blast
          show ?thesis
            by (rule exI [of _ "evs1 @ evs2 @ evs3"])
               (simp add: e1 e2 e3 authorizer_requests_append)
        qed
      qed
    next
      case (Created res)
      with body t Inr
      have "y = (if endpoints = [] then (Inr [], w1) else (Inl TypeError, w1))"
        by (simp split: if_splits)
      with e1 show ?thesis by (auto split: if_splits)
    next
      case Done
      with body t Inr
      have "y = (if endpoints = [] then (Inr [], w1) else (Inl TypeError, w1))"
        by (simp split: if_splits)
      with e1 show ?thesis by (auto split: if_splits)
    qed
  qed
qed

lemma detach_round_trace:
  "\<exists>outss. length outss = length (filter (\<lambda>e. truthy_str (authorizerId e)) es)
      \<and> [] \<notin> set outss
      \<and> fst (detach_round apig apiId es w)
          = zip (filter (\<lambda>e. truthy_str (authorizerId e)) es) (map last outss)
      \<and> trace (snd (detach_round apig apiId es w))
          = trace w @ attempts_trace (detach_request apiId)
                        (filter (\<lambda>e. truthy_str (authorizerId e)) es) outss"
proof (induction es arbitrary: w)
  case Nil
  show ?case by (rule exI [of _ "[]"]) simp
next
  case (Cons a es)
  show ?case
  proof (cases "truthy_str (authorizerId a)")
    case False
    with Cons [of w] show ?thesis by simp
  next
    case True
    let ?req = "detach_request apiId a"
    obtain outs where o: "outs \<noteq> []"
      "fst (throttleAwsRequestRequest (call apig ?req) w) = last outs"
      "trace (snd (throttleAwsRequestRequest (call apig ?req) w))
           = trace w @ backoff_trace ?req 1000 2 0 outs"
      by (rule throttle_trace [of apig ?req w])
    obtain r w1 where t: "throttleAwsRequestRequest (call apig ?req) w = (r, w1)"
      by (cases "throttleAwsRequestRequest (call apig ?req) w")
    obtain rs w2 where d: "detach_round apig apiId es w1 = (rs, w2)"
      by (cases "detach_round apig apiId es w1")
    from Cons [of w1] d obtain outss where
      os: "length outss = length (filter (\<lambda>e. truthy_str (authorizerId e)) es)"
        "[] \<notin> set outss"
        "rs = zip (filter (\<lambda>e. truthy_str (authorizerId e)) es) (map last outss)"
        "trace w2 = trace w1 @ attempts_trace (detach_request apiId)
                        (filter (\<lambda>e. truthy_str (authorizerId e)) es) outss"
      by auto
    show ?thesis
      by (rule exI [of _ "outs # outss"]) (use True t d o os in simp)
  qed
qed

lemma delete_round_trace:
  assumes "length outss = length es"
  shows "\<exists>douts. length douts = length (patched es outss)
      \<and> [] \<notin> set douts
      \<and> trace (snd (delete_round apig apiId (zip es (map last outss)) w))
          = trace w @ attempts_trace (delete_request apiId) (patched es outss) douts"
  using assms
proof (induction outss es arbitrary: w rule: list_induct2)
  case Nil
  show ?case by (rule exI [of _ "[]"]) simp
next
  case (Cons outs outss a es)
  show ?case
  proof (cases "last outs")
    case (Inl e)
    with Cons.IH [of w] show ?thesis by simp
  next
    case (Inr resp)
    let ?req = "delete_request apiId a"
    obtain douts1 where o: "douts1 \<noteq> []"
      "trace (snd (throttleAwsRequestRequest (call apig ?req) w))
           = trace w @ backoff_trace ?req 1000 2 0 douts1"
      by (rule throttle_trace [of apig ?req w])
    obtain r w1 where t: "throttleAwsRequestRequest (call apig ?req) w = (r, w1)"
      by (cases "throttleAwsRequestRequest (call apig ?req) w")
    obtain ds w2 where d: "delete_round apig apiId (zip es (map last outss)) w1 = (ds, w2)"
      by (cases "delete_round apig apiId (zip es (map last outss)) w1")
    from Cons.IH [of w1] d obtain douts where
      os: "length douts = length (patched es outss)" "[] \<notin> set douts"
        "trace w2 = trace w1 @ attempts_trace (delete_request apiId) (patched es outss) douts"
      by auto
    show ?thesis
      by (rule exI [of _ "douts1 # douts"])
         (use Inr t d o os in \<open>simp add: delete_request_def [symmetric]\<close>)
  qed
qed

lemma removeAuthorizers_trace:
  "\<exists>outss douts.
       length outss = length (filter (\<lambda>e. truthy_str (authorizerId e)) es)
     \<and> [] \<notin> set outss
     \<and> length douts = length (patched (filter (\<lambda>e. truthy_str (authorizerId e)) es) outss)
     \<and> [] \<notin> set douts
     \<and> trace (snd (removeAuthorizers apig apiId es w))
          = trace w
            @ attempts_trace (detach_request apiId)
                (filter (\<lambda>e. truthy_str (authorizerId e)) es) outss
            @ attempts_trace (delete_request apiId)
                (patched (filter (\<lambda>e. truthy_str (authorizerId e)) es) outss) douts"
proof -
  let ?tg = "filter (\<lambda>e. truthy_str (authorizerId e)) es"
  obtain rs w1 where d: "detach_round apig apiId es w = (rs, w1)"
    by (cases "detach_round apig apiId es w")
  from detach_round_trace [of es apig apiId w] d obtain outss where
    os: "length outss = length ?tg" "[] \<notin> set outss" "rs = zip ?tg (map last outss)"
      "trace w1 = trace w @ attempts_trace (detach_request apiId) ?tg outss"
    by auto
  obtain ds w2 where e: "delete_round apig apiId rs w1 = (ds, w2)"
    by (cases "delete_round apig apiId rs w1")
  from delete_round_trace [OF os(1), of apig apiId w1] e os(3) obtain douts where
    ds: "length douts = length (patched ?tg outss)" "[] \<notin> set douts"
      "trace w2 = trace w1 @ attempts_trace (delete_request apiId) (patched ?tg outss) douts"
    by auto
  have "snd (removeAuthorizers apig apiId es w) = w2"
    by (simp add: removeAuthorizers_def d e split: option.splits)
  with os ds show ?thesis by (intro exI [of _ outss] exI [of _ douts]) simp
qed

lemma removeOutdatedEndpoints_detaches:
  assumes rr: "removeResources apig apiId (stale endpoints stateEndpoints) w = Some (Inr rs, w1)"
    and rm: "removeMethods apig apiId (stale endpoints stateEndpoints) w1 = (Inr ms, w2)"
  shows "\<exists>r w3 evs0 outss douts.
       removeOutdatedEndpoints apig apiId endpoints stateEndpoints w = Some (r, w3)
     \<and> trace w2 = trace w @ evs0 \<and> authorizer_requests evs0 = []
     \<and> length outss = length (detached endpoints stateEndpoints) \<and> [] \<notin> set outss
     \<and> length douts = length (patched (detached endpoints stateEndpoints) outss)
     \<and> [] \<notin> set douts
     \<and> trace w3 = trace w2
          @ attempts_trace (detach_request apiId) (detached endpoints stateEndpoints) outss
          @ attempts_trace (delete_request apiId)
              (patched (detached endpoints stateEndpoints) outss) douts"
proof -
  let ?U = "filter (\<lambda>e. matched endpoints e \<and> \<not> referenced endpoints e) stateEndpoints"
  obtain x w3 where ra: "removeAuthorizers apig apiId ?U w2 = (x, w3)"
    by (cases "removeAuthorizers apig apiId ?U w2")
  have run: "removeOutdatedEndpoints apig apiId endpoints stateEndpoints w
        = Some (case x of Inl e \<Rightarrow> Inl e | Inr es \<Rightarrow> Inr (stale endpoints stateEndpoints), w3)"
    by (simp add: removeOutdatedEndpoints_def classify_stale rr rm ra split: sum.splits)
  from removeResources_quiet [OF rr] obtain evs1 where
    e1: "trace w1 = trace w @ evs1" "authorizer_requests evs1 = []" by auto
  from removeMethods_quiet [OF rm] obtain evs2 where
    e2: "trace w2 = trace w1 @ evs2" "authorizer_requests evs2 = []" by auto
  have e0: "trace w2 = trace w @ (evs1 @ evs2)" "authorizer_requests (evs1 @ evs2) = []"
    using e1 e2 by (simp_all add: authorizer_requests_append)
  from removeAuthorizers_trace [of ?U apig apiId w2]
  obtain outss douts where
    t: "length outss = length (detached endpoints stateEndpoints)" "[] \<notin> set outss"
       "length douts = length (patched (detached endpoints stateEndpoints) outss)"
       "[] \<notin> set douts"
       "trace w3 = trace w2
          @ attempts_trace (detach_request apiId) (detached endpoints stateEndpoints) outss
          @ attempts_trace (delete_request apiId)
              (patched (detached endpoints stateEndpoints) outss) douts"
    unfolding detached_filter ra snd_conv by (elim exE conjE)
  from run e0 t show ?thesis by (intro exI conjI)
qed

lemma removeOutdatedEndpoints_fails:
  assumes "removeResources apig apiId (stale endpoints stateEndpoints) w = Some (Inl e, w1)
      \<or> removeResources apig apiId (stale endpoints stateEndpoints) w = Some (Inr rs, w1)
        \<and> removeMethods apig apiId (stale endpoints stateEndpoints) w1 = (Inl e, w2)"
  shows "\<exists>w3 evs0.
       removeOutdatedEndpoints apig apiId endpoints stateEndpoints w = Some (Inl e, w3)
     \<and> trace w3 = trace w @ evs0 \<and> authorizer_requests evs0 = []"
  using assms
proof (elim disjE conjE)
  assume rr: "removeResources apig apiId (stale endpoints stateEndpoints) w = Some (Inl e, w1)"
  have run: "removeOutdatedEndpoints apig apiId endpoints stateEndpoints w = Some (Inl e, w1)"
    by (simp add: removeOutdatedEndpoints_def classify_stale rr)
  from removeResources_quiet [OF rr] obtain evs1 where
    "trace w1 = trace w @ evs1" "authorizer_requests evs1 = []" by auto
  with run show ?thesis by (intro exI conjI)
next
  assume rr: "removeResources apig apiId (stale endpoints stateEndpoints) w = Some (Inr rs, w1)"
    and rm: "removeMethods apig apiId (stale endpoints stateEndpoints) w1 = (Inl e, w2)"
  have run: "removeOutdatedEndpoints apig apiId endpoints stateEndpoints w = Some (Inl e, w2)"
    by (simp add: removeOutdatedEndpoints_def classify_stale rr rm)
  from removeResources_quiet [OF rr] obtain evs1 where
    e1: "trace w1 = trace w @ evs1" "authorizer_requests evs1 = []" by auto
  from removeMethods_quiet [OF rm] obtain evs2 where
    e2: "trace w2 = trace w1 @ evs2" "authorizer_requests evs2 = []" by auto
  have "trace w2 = trace w @ (evs1 @ evs2)" "authorizer_requests (evs1 @ evs2) = []"
    using e1 e2 by (simp_all add: authorizer_requests_append)
  with run show ?thesis by (intro exI conjI)
qed

text \<open>
  C3 (amended). Once \<open>removeResources\<close> and \<open>removeMethods\<close> have succeeded on the
  stale endpoints, without any \<open>updateMethod\<close> or \<open>deleteAuthorizer\<close> request so
  far, \<open>removeOutdatedEndpoints\<close> returns after issuing, in order, the request that
  detaches the authorizer from the method of exactly the prior endpoints that are
  matched by (method, path) in the desired set and whose authorizerId is set and is the
  authorizerId of no desired endpoint (each attempted at least once), followed by the
  \<open>deleteAuthorizer\<close> request of each of them whose detach request succeeded. When
  \<open>removeResources\<close> or \<open>removeMethods\<close> fails, the run fails with that error and
  has issued no \<open>updateMethod\<close> or \<open>deleteAuthorizer\<close> request at all. A prior
  endpoint that is itself stale is not among the detached ones: it contributes no
  request of this kind.
\<close>

theorem removeOutdatedEndpoints_detached_authorizers:
  "(removeResources apig apiId (stale endpoints stateEndpoints) w = Some (Inr rs, w1)
      \<and> removeMethods apig apiId (stale endpoints stateEndpoints) w1 = (Inr ms, w2)
    \<longrightarrow> (\<exists>r w3 evs0 outss douts.
           removeOutdatedEndpoints apig apiId endpoints stateEndpoints w = Some (r, w3)
         \<and> trace w2 = trace w @ evs0 \<and> authorizer_requests evs0 = []
         \<and> length outss = length (detached endpoints stateEndpoints) \<and> [] \<notin> set outss
         \<and> length douts = length (patched (detached endpoints stateEndpoints) outss)
         \<and> [] \<notin> set douts
         \<and> trace w3 = trace w2
              @ attempts_trace (detach_request apiId) (detached endpoints stateEndpoints) outss
              @ attempts_trace (delete_request apiId)
                  (patched (detached endpoints stateEndpoints) outss) douts))
   \<and> (removeResources apig apiId (stale endpoints stateEndpoints) w = Some (Inl e, v1)
      \<or> removeResources apig apiId (stale endpoints stateEndpoints) w = Some (Inr rs', v1)
        \<and> removeMethods apig apiId (stale endpoints stateEndpoints) v1 = (Inl e, v2)
    \<longrightarrow> (\<exists>v3 evs0.
           removeOutdatedEndpoints apig apiId endpoints stateEndpoints w = Some (Inl e, v3)
         \<and> trace v3 = trace w @ evs0 \<and> authorizer_requests evs0 = []))"
proof (intro conjI impI)
  assume "removeResources apig apiId (stale endpoints stateEndpoints) w = Some (Inr rs, w1)
      \<and> removeMethods apig apiId (stale endpoints stateEndpoints) w1 = (Inr ms, w2)"
  then show "\<exists>r w3 evs0 outss douts.
           removeOutdatedEndpoints apig apiId endpoints stateEndpoints w = Some (r, w3)
         \<and> trace w2 = trace w @ evs0 \<and> authorizer_requests evs0 = []
         \<and> length outss = length (detached endpoints stateEndpoints) \<and> [] \<notin> set outss
         \<and> length douts = length (patched (detached endpoints stateEndpoints) outss)
         \<and> [] \<notin> set douts
         \<and> trace w3 = trace w2
              @ attempts_trace (detach_request apiId) (detached endpoints stateEndpoints) outss
              @ attempts_trace (delete_request apiId)
                  (patched (detached endpoints stateEndpoints) outss) douts"
    by (elim conjE) (rule removeOutdatedEndpoints_detaches)
next
  assume "removeResources apig apiId (stale endpoints stateEndpoints) w = Some (Inl e, v1)
      \<or> removeResources apig apiId (stale endpoints stateEndpoints) w = Some (Inr rs', v1)
        \<and> removeMethods apig apiId (stale endpoints stateEndpoints) v1 = (Inl e, v2)"
  then show "\<exists>v3 evs0.
           removeOutdatedEndpoints apig apiId endpoints stateEndpoints w = Some (Inl e, v3)
         \<and> trace v3 = trace w @ evs0 \<and> authorizer_requests evs0 = []"
    by (rule removeOutdatedEndpoints_fails)
qed

text \<open>The two runs of the instance below.\<close>

lemma stale_kept: "stale [kept_endpoint] [old_endpoint] = []"
  by (simp add: stale_def matched_def kept_endpoint_def)

lemma detached_kept: "detached [kept_endpoint] [old_endpoint] = [old_endpoint]"
  by (simp add: detached_def matched_def referenced_def kept_endpoint_def old_endpoint_def)

lemma kept_listing:
  "removeResources apigateway ''api'' [] \<lparr>remote = old_gateway, trace = []\<rparr>
     = Some (Inr [], \<lparr>remote = old_gateway, trace = [old_listing]\<rparr>)"
proof -
  have listing: "throttleAwsRequestRequest (call apigateway (GetResources ''api''))
          \<lparr>remote = old_gateway, trace = []\<rparr>
        = (Inr (Resources [root_resource, old_resource]),
           \<lparr>remote = old_gateway, trace = [old_listing]\<rparr>)"
    by (subst throttle_once [where r = "Inr (Resources [root_resource, old_resource])"
          and s' = old_gateway])
       (simp_all add: old_gateway_def old_listing_def)
  show ?thesis
    by (subst removeResources.simps) (simp add: listing)
qed

lemma kept_methods:
  "removeMethods apigateway ''api'' [] w = (Inr [], w)"
  by (simp add: removeMethods_def)

lemma detach_run:
  "removeOutdatedEndpoints apigateway ''api'' [kept_endpoint] [old_endpoint]
       \<lparr>remote = old_gateway, trace = []\<rparr>
     = Some (Inr [],
         \<lparr>remote = \<lparr>gw_resources = [root_resource, old_resource], gw_authorizers = []\<rparr>,
          trace = [old_listing, auth_detached, auth_deleted]\<rparr>)"
proof -
  let ?w1 = "\<lparr>remote = old_gateway, trace = [old_listing]\<rparr>"
  let ?w2 = "\<lparr>remote = old_gateway, trace = [old_listing, auth_detached]\<rparr>"
  let ?w3 = "\<lparr>remote = \<lparr>gw_resources = [root_resource, old_resource], gw_authorizers = []\<rparr>,
             trace = [old_listing, auth_detached, auth_deleted]\<rparr>"
  have c: "classify [kept_endpoint] [old_endpoint] = ([], [old_endpoint])"
    by (simp add: kept_endpoint_def old_endpoint_def)
  have patch: "throttleAwsRequestRequest
                 (call apigateway (detach_request ''api'' old_endpoint)) ?w1
        = (Inr Done, ?w2)"
    by (subst throttle_once [where r = "Inr Done" and s' = old_gateway])
       (simp_all add: detach_request_def old_endpoint_def old_gateway_def has_method_def
          root_resource_def old_resource_def auth_detached_def)
  have del: "throttleAwsRequestRequest
                 (call apigateway (DeleteAuthorizer ''api'' ''auth1'')) ?w2
        = (Inr Done, ?w3)"
    by (subst throttle_once [where r = "Inr Done"
          and s' = "\<lparr>gw_resources = [root_resource, old_resource], gw_authorizers = []\<rparr>"])
       (simp_all add: old_gateway_def auth_deleted_def)
  have a: "authorizerId old_endpoint = Some ''auth1''" by (simp add: old_endpoint_def)
  have auth: "removeAuthorizers apigateway ''api'' [old_endpoint] ?w1 = (Inr [old_endpoint], ?w3)"
    by (simp add: removeAuthorizers_def a patch del)
  show ?thesis
    unfolding removeOutdatedEndpoints_def c
    by (simp add: kept_listing kept_methods auth)
qed

lemma broken_listing:
  "removeResources always_done ''api'' [old_endpoint] \<lparr>remote = (), trace = []\<rparr>
     = Some (Inl TypeError,
         \<lparr>remote = (), trace = [Call (GetResources ''api'') (Inr Done)]\<rparr>)"
proof -
  have listing: "throttleAwsRequestRequest (call always_done (GetResources ''api''))
          \<lparr>remote = (), trace = []\<rparr>
        = (Inr Done, \<lparr>remote = (), trace = [Call (GetResources ''api'') (Inr Done)]\<rparr>)"
    by (subst throttle_once [where r = "Inr Done" and s' = "()"])
       (simp_all add: always_done_def)
  show ?thesis
    by (subst removeResources.simps) (simp add: listing)
qed

text \<open>
  An instance of each part. With \<open>GET /old\<close> desired without an authorizer and
  \<open>GET /old\<close> bound to \<open>auth1\<close> in the prior state, the run detaches \<open>auth1\<close>
  from the method and deletes it. On a remote whose listing has no \<open>items\<close>,
  \<open>removeResources\<close> fails on the stale endpoint and no authorizer request follows.
\<close>

theorem removeOutdatedEndpoints_detached_authorizers_witness:
  "removeOutdatedEndpoints apigateway ''api'' [kept_endpoint] [old_endpoint]
       \<lparr>remote = old_gateway, trace = []\<rparr>
     = Some (Inr [],
         \<lparr>remote = \<lparr>gw_resources = [root_resource, old_resource], gw_authorizers = []\<rparr>,
          trace = [old_listing, auth_detached, auth_deleted]\<rparr>)
   \<and> (\<exists>outss douts.
         length outss = 1 \<and> [] \<notin> set outss
       \<and> length douts = length (patched [old_endpoint] outss) \<and> [] \<notin> set douts
       \<and> [old_listing, auth_detached, auth_deleted] = [old_listing]
            @ attempts_trace (detach_request ''api'') [old_endpoint] outss
            @ attempts_trace (delete_request ''api'') (patched [old_endpoint] outss) douts)
   \<and> (\<exists>v3. removeOutdatedEndpoints always_done ''api'' [] [old_endpoint]
                \<lparr>remote = (), trace = []\<rparr> = Some (Inl TypeError, v3)
          \<and> authorizer_requests (trace v3) = [])"
proof -
  let ?w0 = "\<lparr>remote = old_gateway, trace = []\<rparr>"
  let ?w1 = "\<lparr>remote = old_gateway, trace = [old_listing]\<rparr>"
  let ?w3 = "\<lparr>remote = \<lparr>gw_resources = [root_resource, old_resource], gw_authorizers = []\<rparr>,
             trace = [old_listing, auth_detached, auth_deleted]\<rparr>"
  note inst = removeOutdatedEndpoints_detached_authorizers
    [where apig = apigateway and apiId = "''api''" and endpoints = "[kept_endpoint]"
       and stateEndpoints = "[old_endpoint]" and w = ?w0
       and rs = "[]" and ?w1.0 = ?w1 and ms = "[]" and ?w2.0 = ?w1]
  have rr: "removeResources apigateway ''api'' (stale [kept_endpoint] [old_endpoint]) ?w0
              = Some (Inr [], ?w1)"
    by (simp only: stale_kept kept_listing)
  have rm: "removeMethods apigateway ''api'' (stale [kept_endpoint] [old_endpoint]) ?w1
              = (Inr [], ?w1)"
    by (simp only: stale_kept kept_methods)
  from inst [THEN conjunct1, rule_format, OF conjI [OF rr rm]]
  obtain r w3 evs0 outss douts where
    run: "removeOutdatedEndpoints apigateway ''api'' [kept_endpoint] [old_endpoint] ?w0
            = Some (r, w3)"
    and o: "length outss = length (detached [kept_endpoint] [old_endpoint])" "[] \<notin> set outss"
      "length douts = length (patched (detached [kept_endpoint] [old_endpoint]) outss)"
      "[] \<notin> set douts"
      "trace w3 = trace ?w1
          @ attempts_trace (detach_request ''api'') (detached [kept_endpoint] [old_endpoint]) outss
          @ attempts_trace (delete_request ''api'')
              (patched (detached [kept_endpoint] [old_endpoint]) outss) douts"
    by (elim exE conjE)
  from run have w3: "w3 = ?w3" by (simp add: detach_run)
  have first: "\<exists>outss douts.
         length outss = 1 \<and> [] \<notin> set outss
       \<and> length douts = length (patched [old_endpoint] outss) \<and> [] \<notin> set douts
       \<and> [old_listing, auth_detached, auth_deleted] = [old_listing]
            @ attempts_trace (detach_request ''api'') [old_endpoint] outss
            @ attempts_trace (delete_request ''api'') (patched [old_endpoint] outss) douts"
    using o unfolding w3 detached_kept by (intro exI [of _ outss] exI [of _ douts]) simp
  note inst2 = removeOutdatedEndpoints_detached_authorizers
    [where apig = always_done and apiId = "''api''" and endpoints = "[]"
       and stateEndpoints = "[old_endpoint]" and w = "\<lparr>remote = (), trace = []\<rparr>"
       and e = TypeError
       and ?v1.0 = "\<lparr>remote = (), trace = [Call (GetResources ''api'') (Inr Done)]\<rparr>"]
  have s: "stale [] [old_endpoint] = [old_endpoint]" by (simp add: stale_def matched_def)
  have rr2: "removeResources always_done ''api'' (stale [] [old_endpoint])
                 \<lparr>remote = (), trace = []\<rparr>
              = Some (Inl TypeError,
                  \<lparr>remote = (), trace = [Call (GetResources ''api'') (Inr Done)]\<rparr>)"
    by (simp only: s broken_listing)
  from inst2 [THEN conjunct2, rule_format, OF disjI1 [OF rr2]]
  obtain v3 evs0' where
    "removeOutdatedEndpoints always_done ''api'' [] [old_endpoint] \<lparr>remote = (), trace = []\<rparr>
       = Some (Inl TypeError, v3)"
    "trace v3 = trace \<lparr>remote = (), trace = []\<rparr> @ evs0'" "authorizer_requests evs0' = []"
    by (elim exE conjE)
  then have second: "\<exists>v3. removeOutdatedEndpoints always_done ''api'' [] [old_endpoint]
                \<lparr>remote = (), trace = []\<rparr> = Some (Inl TypeError, v3)
          \<and> authorizer_requests (trace v3) = []"
    by (intro exI [of _ v3]) simp
  from detach_run first second show ?thesis by (intro conjI)
qed

text \<open>
  The claim fails for a prior endpoint that is itself stale: \<open>GET /old\<close> is absent from
  the empty desired set and its authorizer \<open>auth1\<close> is referenced by no desired
  endpoint, yet no request detaches or deletes \<open>auth1\<close>, which stays on the remote.
\<close>

theorem removeOutdatedEndpoints_stale_authorizer_counterexample:
  "removeOutdatedEndpoints apigateway ''api'' [] [old_endpoint]
       \<lparr>remote = old_gateway, trace = []\<rparr>
     = Some (Inr [old_endpoint],
         \<lparr>remote = \<lparr>gw_resources = [root_resource, unbound_resource],
                    gw_authorizers = [''auth1'']\<rparr>,
          trace = [Call (GetResources ''api'') (Inr (Resources [root_resource, old_resource])),
                   Call (DeleteMethod ''api'' (Some ''r1'') (Some ''GET'')) (Inr Done)]\<rparr>)
   \<and> authorizerId old_endpoint = Some ''auth1''"
  using gc_stale_endpoint [of old_endpoint old_gateway]
  by (simp add: old_endpoint_def old_gateway_def old_listing_def method_deleted_def)

section \<open>Resource removal\<close>

lemma find_Some_set: "find P xs = Some x \<Longrightarrow> x \<in> set xs \<and> P x"
  by (induction xs) (auto split: if_splits)

lemma removable_childless_unbound:
  assumes "removable items endpoint"
  shows "childless_unbound items (endpoint_id endpoint)"
proof -
  from assms obtain r where
    f: "find (\<lambda>resourceItem. Some (resource_id resourceItem) = endpoint_id endpoint) items = Some r"
    and m: "resourceMethods r = []"
    and c: "filter (\<lambda>resourceItem. parentId resourceItem = endpoint_id endpoint) items = []"
    by (auto simp add: removable_def Let_def)
  from find_Some_set [OF f] have "r \<in> set items" "Some (resource_id r) = endpoint_id endpoint"
    by simp_all
  moreover from c have "\<not> (\<exists>c \<in> set items. parentId c = endpoint_id endpoint)"
    by (auto simp add: filter_empty_conv)
  ultimately show ?thesis
    using m by (auto simp add: childless_unbound_def)
qed

lemma last_listing_append:
  "last_listing L (evs @ evs') = last_listing (last_listing L evs) evs'"
  by (induction evs arbitrary: L) auto

lemma deletes_justified_append:
  "deletes_justified L (evs @ evs')
     \<longleftrightarrow> deletes_justified L evs \<and> deletes_justified (last_listing L evs) evs'"
  by (induction evs arbitrary: L) auto

text \<open>The attempts of a listing request: no delete, and the outcome decides the listing.\<close>

lemma listing_attempts_justified:
  "deletes_justified L (backoff_trace (GetResources a) mt f k outs)"
  by (induction "GetResources a" mt f k outs arbitrary: L rule: backoff_trace.induct) auto

lemma listing_attempts_last:
  "outs \<noteq> [] \<Longrightarrow> last outs = Inr (Resources items) \<Longrightarrow>
     last_listing L (backoff_trace (GetResources a) mt f k outs) = Some items"
  by (induction "GetResources a" mt f k outs arbitrary: L rule: backoff_trace.induct) auto

text \<open>The attempts of a delete request: justified by the listing, which they leave alone.\<close>

lemma delete_attempts_justified:
  "childless_unbound items rid \<Longrightarrow>
     deletes_justified (Some items) (backoff_trace (DeleteResource a rid) mt f k outs)"
  by (induction "DeleteResource a rid" mt f k outs rule: backoff_trace.induct) auto

lemma delete_attempts_listing:
  "last_listing L (backoff_trace (DeleteResource a rid) mt f k outs) = L"
  by (induction "DeleteResource a rid" mt f k outs rule: backoff_trace.induct) auto

lemma removeResource_trace:
  assumes "removeResource apig apiId endpoint w = (r, w')"
    and "childless_unbound items (endpoint_id endpoint)"
  shows "\<exists>evs. trace w' = trace w @ evs \<and> deletes_justified (Some items) evs
           \<and> last_listing (Some items) evs = Some items"
proof -
  let ?req = "DeleteResource apiId (endpoint_id endpoint)"
  obtain outs where o: "outs \<noteq> []"
    "trace (snd (throttleAwsRequestRequest (call apig ?req) w))
           = trace w @ backoff_trace ?req 1000 2 0 outs"
    by (rule throttle_trace [of apig ?req w])
  obtain r1 w1 where t: "throttleAwsRequestRequest (call apig ?req) w = (r1, w1)"
    by (cases "throttleAwsRequestRequest (call apig ?req) w")
  from assms(1) t have "w' = w1"
    by (auto simp add: removeResource_def split: sum.splits if_splits)
  with o t have "trace w' = trace w @ backoff_trace ?req 1000 2 0 outs" by simp
  then show ?thesis
    using delete_attempts_justified [OF assms(2)] delete_attempts_listing by blast
qed

lemma promise_all_removeResource_trace:
  assumes "promise_all (map (removeResource apig apiId) eps) w = (r, w')"
    and "\<forall>ep \<in> set eps. childless_unbound items (endpoint_id ep)"
  shows "\<exists>evs. trace w' = trace w @ evs \<and> deletes_justified (Some items) evs
           \<and> last_listing (Some items) evs = Some items"
  using assms
proof (induction eps arbitrary: w r w')
  case Nil
  then show ?case by simp
next
  case (Cons ep eps)
  obtain r1 w1 where a: "removeResource apig apiId ep w = (r1, w1)"
    by (cases "removeResource apig apiId ep w")
  obtain rs w2 where b: "promise_all (map (removeResource apig apiId) eps) w1 = (rs, w2)"
    by (cases "promise_all (map (removeResource apig apiId) eps) w1")
  from Cons.prems(1) a b have w': "w' = w2" by simp
  from removeResource_trace [OF a] Cons.prems(2) obtain evs1 where
    e1: "trace w1 = trace w @ evs1" "deletes_justified (Some items) evs1"
        "last_listing (Some items) evs1 = Some items"
    by auto
  from Cons.IH [OF b] Cons.prems(2) obtain evs2 where
    e2: "trace w2 = trace w1 @ evs2" "deletes_justified (Some items) evs2"
        "last_listing (Some items) evs2 = Some items"
    by auto
  show ?case
    by (rule exI [of _ "evs1 @ evs2"])
       (simp add: w' e1 e2 deletes_justified_append last_listing_append)
qed

lemma removeResources_trace:
  assumes "removeResources apig apiId endpoints w = Some y"
  shows "\<exists>evs. trace (snd y) = trace w @ evs
           \<and> (\<forall>L. deletes_justified L evs)
           \<and> (\<forall>v. fst y = Inr v \<longrightarrow>
                 v = [] \<and> (endpoints = []
                          \<or> (\<exists>items. (\<forall>L. last_listing L evs = Some items)
                               \<and> filter (removable items) endpoints = [])))"
  using assms
proof (rule removeResources.raw_induct [rotated 1], goal_cases)
  case (1 removeResources' apig apiId endpoints w y)
  note IH = "1"(1) and body = "1"(2)
  let ?req = "GetResources apiId"
  obtain outs where o: "outs \<noteq> []"
    "fst (throttleAwsRequestRequest (call apig ?req) w) = last outs"
    "trace (snd (throttleAwsRequestRequest (call apig ?req) w))
           = trace w @ backoff_trace ?req 1000 2 0 outs"
    by (rule throttle_trace [of apig ?req w])
  let ?B = "backoff_trace ?req 1000 2 0 outs"
  obtain r0 w1 where t: "throttleAwsRequestRequest (call apig ?req) w = (r0, w1)"
    by (cases "throttleAwsRequestRequest (call apig ?req) w")
  from o t have r0: "r0 = last outs" and w1: "trace w1 = trace w @ ?B" by simp_all
  have jB: "deletes_justified L ?B" for L by (rule listing_attempts_justified)
  show ?case
  proof (cases r0)
    case (Inl e)
    with body t have "y = (Inl e, w1)" by simp
    with w1 jB show ?thesis by auto
  next
    case (Inr resp)
    show ?thesis
    proof (cases resp)
      case (Resources items)
      have lB: "last_listing L ?B = Some items" for L
        using listing_attempts_last [OF o(1), of items L apiId 1000 2 0] r0 Inr Resources
        by simp
      let ?sel = "filter (removable items) endpoints"
      show ?thesis
      proof (cases "?sel = []")
        case True
        with body t Inr Resources have "y = (Inr [], w1)" by simp
        with w1 jB lB True show ?thesis by auto
      next
        case False
        obtain r2 w2 where p: "promise_all (map (removeResource apig apiId) ?sel) w1 = (r2, w2)"
          by (cases "promise_all (map (removeResource apig apiId) ?sel) w1")
        have "\<forall>ep \<in> set ?sel. childless_unbound items (endpoint_id ep)"
          by (auto intro: removable_childless_unbound)
        from promise_all_removeResource_trace [OF p this] obtain evs2 where
          e2: "trace w2 = trace w1 @ evs2" "deletes_justified (Some items) evs2"
            "last_listing (Some items) evs2 = Some items"
          by auto
        have j2: "deletes_justified L (?B @ evs2)" for L
          by (simp add: deletes_justified_append jB lB e2)
        show ?thesis
        proof (cases r2)
          case (Inl e)
          with body t Inr Resources False p have "y = (Inl e, w2)" by (simp add: Let_def)
          with w1 e2 j2 show ?thesis
            by (intro exI [of _ "?B @ evs2"]) simp
        next
          case (Inr rs)
          with body t \<open>r0 = Inr resp\<close> Resources False p
          have "removeResources' apig apiId endpoints w2 = Some y" by (simp add: Let_def)
          from IH [OF this] obtain evs3 where
            e3: "trace (snd y) = trace w2 @ evs3" "\<forall>L. deletes_justified L evs3"
              "\<forall>v. fst y = Inr v \<longrightarrow>
                 v = [] \<and> (endpoints = []
                          \<or> (\<exists>items. (\<forall>L. last_listing L evs3 = Some items)
                               \<and> filter (removable items) endpoints = []))"
            by blast
          have tr: "trace (snd y) = trace w @ (?B @ evs2 @ evs3)"
            using w1 e2 e3 by simp
          have j: "\<forall>L. deletes_justified L (?B @ evs2 @ evs3)"
            using jB lB e2 e3 by (simp add: deletes_justified_append)
          have l: "last_listing L (?B @ evs2 @ evs3) = last_listing (Some items) evs3" for L
            using lB e2 by (simp add: last_listing_append)
          have fin: "\<forall>v. fst y = Inr v \<longrightarrow>
                 v = [] \<and> (endpoints = []
                          \<or> (\<exists>items. (\<forall>L. last_listing L (?B @ evs2 @ evs3) = Some items)
                               \<and> filter (removable items) endpoints = []))"
            using e3(3) by (simp only: l) blast
          from tr j fin show ?thesis by blast
        qed
      qed
    next
      case (Created res)
      with body t Inr
      have "y = (if endpoints = [] then (Inr [], w1) else (Inl TypeError, w1))"
        by (simp split: if_splits)
      with w1 jB show ?thesis by (auto split: if_splits)
    next
      case Done
      with body t Inr
      have "y = (if endpoints = [] then (Inr [], w1) else (Inl TypeError, w1))"
        by (simp split: if_splits)
      with w1 jB show ?thesis by (auto split: if_splits)
    qed
  qed
qed

lemma removeResources_pass:
  assumes "throttleAwsRequestRequest (call apig (GetResources apiId)) w
             = (Inr (Resources items), w1)"
    and "promise_all (map (removeResource apig apiId) (filter (removable items) endpoints)) w1
             = (r2, w2)"
  shows "(\<exists>evs. trace w2 = trace w1 @ evs \<and> deletes_justified (Some items) evs)
       \<and> removeResources apig apiId endpoints w
           = (if filter (removable items) endpoints = [] then Some (Inr [], w1)
              else (case r2 of
                      Inl e \<Rightarrow> Some (Inl e, w2)
                    | Inr rs \<Rightarrow> removeResources apig apiId endpoints w2))"
proof
  have "\<forall>ep \<in> set (filter (removable items) endpoints).
          childless_unbound items (endpoint_id ep)"
    by (auto intro: removable_childless_unbound)
  from promise_all_removeResource_trace [OF assms(2) this]
  show "\<exists>evs. trace w2 = trace w1 @ evs \<and> deletes_justified (Some items) evs"
    by blast
  show "removeResources apig apiId endpoints w
           = (if filter (removable items) endpoints = [] then Some (Inr [], w1)
              else (case r2 of
                      Inl e \<Rightarrow> Some (Inl e, w2)
                    | Inr rs \<Rightarrow> removeResources apig apiId endpoints w2))"
    by (subst removeResources.simps) (simp add: assms Let_def split: sum.splits)
qed

lemma removeResources_run:
  assumes "removeResources apig apiId endpoints w = Some (r, w')"
  shows "\<exists>evs. trace w' = trace w @ evs
           \<and> deletes_justified None evs
           \<and> (\<forall>v. r = Inr v \<longrightarrow>
                 v = [] \<and> (endpoints = []
                          \<or> (\<exists>items. last_listing None evs = Some items
                               \<and> filter (removable items) endpoints = [])))"
proof -
  from removeResources_trace [OF assms] obtain evs where
    "trace w' = trace w @ evs" "\<forall>L. deletes_justified L evs"
    "\<forall>v. r = Inr v \<longrightarrow>
        v = [] \<and> (endpoints = []
                 \<or> (\<exists>items. (\<forall>L. last_listing L evs = Some items)
                      \<and> filter (removable items) endpoints = []))"
    by auto
  then show ?thesis by (intro exI [of _ evs]) blast
qed

text \<open>
  C2. In every pass of \<open>removeResources\<close>, whether the run returns or not, every
  \<open>deleteResource\<close> request names a resource that the listing fetched at the start of
  the pass shows with no bound method and no child (so a node that hosts a method or a
  child in that listing is not deleted); the pass ends the run with the empty list when
  the listing leaves no endpoint removable, ends it with the error when a delete fails,
  and is followed by another pass otherwise. Whenever the run returns, all its deletes
  are justified in this way, and when it returns without an error it returns the empty
  list after a pass whose listing leaves none of the given endpoints removable (or
  there was no endpoint to look at).
\<close>

theorem removeResources_deletes_only_childless_unbound:
  "(throttleAwsRequestRequest (call apig (GetResources apiId)) w = (Inr (Resources items), w1)
     \<and> promise_all (map (removeResource apig apiId) (filter (removable items) endpoints)) w1
           = (r2, w2)
    \<longrightarrow> (\<exists>evs. trace w2 = trace w1 @ evs \<and> deletes_justified (Some items) evs)
        \<and> removeResources apig apiId endpoints w
            = (if filter (removable items) endpoints = [] then Some (Inr [], w1)
               else (case r2 of
                       Inl e \<Rightarrow> Some (Inl e, w2)
                     | Inr rs \<Rightarrow> removeResources apig apiId endpoints w2)))
   \<and> (removeResources apig apiId endpoints w = Some (r, w')
    \<longrightarrow> (\<exists>evs. trace w' = trace w @ evs
           \<and> deletes_justified None evs
           \<and> (\<forall>v. r = Inr v \<longrightarrow>
                 v = [] \<and> (endpoints = []
                          \<or> (\<exists>items. last_listing None evs = Some items
                               \<and> filter (removable items) endpoints = [])))))"
proof (intro conjI impI)
  assume "throttleAwsRequestRequest (call apig (GetResources apiId)) w
            = (Inr (Resources items), w1)
     \<and> promise_all (map (removeResource apig apiId) (filter (removable items) endpoints)) w1
           = (r2, w2)"
  then have l: "throttleAwsRequestRequest (call apig (GetResources apiId)) w
            = (Inr (Resources items), w1)"
    and p: "promise_all (map (removeResource apig apiId) (filter (removable items) endpoints)) w1
           = (r2, w2)"
    by simp_all
  from removeResources_pass [OF l p]
  show "\<exists>evs. trace w2 = trace w1 @ evs \<and> deletes_justified (Some items) evs"
    and "removeResources apig apiId endpoints w
            = (if filter (removable items) endpoints = [] then Some (Inr [], w1)
               else (case r2 of
                       Inl e \<Rightarrow> Some (Inl e, w2)
                     | Inr rs \<Rightarrow> removeResources apig apiId endpoints w2))"
    by simp_all
next
  assume "removeResources apig apiId endpoints w = Some (r, w')"
  then show "\<exists>evs. trace w' = trace w @ evs
           \<and> deletes_justified None evs
           \<and> (\<forall>v. r = Inr v \<longrightarrow>
                 v = [] \<and> (endpoints = []
                          \<or> (\<exists>items. last_listing None evs = Some items
                               \<and> filter (removable items) endpoints = [])))"
    by (rule removeResources_run)
qed

section \<open>Resource removal on the reference remote\<close>

lemma listing_apigateway:
  "throttleAwsRequestRequest (call apigateway (GetResources a)) w
     = (Inr (Resources (gw_resources (remote w))),
        w\<lparr>trace := trace w @ [Call (GetResources a) (Inr (Resources (gw_resources (remote w))))]\<rparr>)"
  by (subst throttle_once [where r = "Inr (Resources (gw_resources (remote w)))"
        and s' = "remote w"]) simp_all

lemma removeResource_apigateway:
  "\<exists>out. removeResource apigateway a ep w
     = (Inr (),
        w\<lparr>remote := (remote w)\<lparr>gw_resources :=
               filter (\<lambda>r. Some (resource_id r) \<noteq> endpoint_id ep) (gw_resources (remote w))\<rparr>,
          trace := trace w @ [Call (DeleteResource a (endpoint_id ep)) out]\<rparr>)"
proof (cases "\<exists>r \<in> set (gw_resources (remote w)). Some (resource_id r) = endpoint_id ep")
  case True
  let ?s = "(remote w)\<lparr>gw_resources :=
               filter (\<lambda>r. Some (resource_id r) \<noteq> endpoint_id ep) (gw_resources (remote w))\<rparr>"
  have "throttleAwsRequestRequest (call apigateway (DeleteResource a (endpoint_id ep))) w
          = (Inr Done, w\<lparr>remote := ?s,
               trace := trace w @ [Call (DeleteResource a (endpoint_id ep)) (Inr Done)]\<rparr>)"
    by (subst throttle_once [where r = "Inr Done" and s' = ?s]) (use True in simp_all)
  then show ?thesis by (intro exI [of _ "Inr Done"]) (simp add: removeResource_def)
next
  case False
  then have same: "filter (\<lambda>r. Some (resource_id r) \<noteq> endpoint_id ep) (gw_resources (remote w))
                     = gw_resources (remote w)"
    by (auto simp add: filter_id_conv)
  have "throttleAwsRequestRequest (call apigateway (DeleteResource a (endpoint_id ep))) w
          = (Inl (AwsError ''NotFoundException''), w\<lparr>remote := remote w,
               trace := trace w @ [Call (DeleteResource a (endpoint_id ep))
                                     (Inl (AwsError ''NotFoundException''))]\<rparr>)"
    by (subst throttle_once [where r = "Inl (AwsError ''NotFoundException'')"
          and s' = "remote w"]) (use False in simp_all)
  then show ?thesis
    by (intro exI [of _ "Inl (AwsError ''NotFoundException'')"]) (simp add: removeResource_def same)
qed

lemma promise_all_removeResource_apigateway:
  "\<exists>us w2. promise_all (map (removeResource apigateway a) eps) w = (Inr us, w2)
     \<and> gw_resources (remote w2)
         = filter (\<lambda>r. \<forall>ep \<in> set eps. Some (resource_id r) \<noteq> endpoint_id ep)
             (gw_resources (remote w))"
proof (induction eps arbitrary: w)
  case Nil
  show ?case by simp
next
  case (Cons ep eps)
  from removeResource_apigateway [of a ep w] obtain w1 where
    r: "removeResource apigateway a ep w = (Inr (), w1)"
    and g: "gw_resources (remote w1)
              = filter (\<lambda>r. Some (resource_id r) \<noteq> endpoint_id ep) (gw_resources (remote w))"
    by auto
  from Cons [of w1] obtain us w2 where
    p: "promise_all (map (removeResource apigateway a) eps) w1 = (Inr us, w2)"
    and g2: "gw_resources (remote w2)
         = filter (\<lambda>r. \<forall>ep \<in> set eps. Some (resource_id r) \<noteq> endpoint_id ep)
             (gw_resources (remote w1))"
    by auto
  have "gw_resources (remote w2)
         = filter (\<lambda>r. \<forall>ep \<in> set (ep # eps). Some (resource_id r) \<noteq> endpoint_id ep)
             (gw_resources (remote w))"
    unfolding g2 g by (auto intro: filter_cong)
  with r p show ?case by simp
qed

text \<open>
  On the reference remote \<open>removeResources\<close> always returns: a pass that deletes
  anything leaves fewer resources than it found.
\<close>

lemma removeResources_apigateway_returns:
  "\<exists>y. removeResources apigateway a endpoints w = Some y"
proof (induction "length (gw_resources (remote w))" arbitrary: w rule: less_induct)
  case less
  let ?items = "gw_resources (remote w)"
  let ?w1 = "w\<lparr>trace := trace w @ [Call (GetResources a) (Inr (Resources ?items))]\<rparr>"
  let ?sel = "filter (removable ?items) endpoints"
  show ?case
  proof (cases "?sel = []")
    case True
    then show ?thesis
      by (subst removeResources.simps) (simp add: listing_apigateway)
  next
    case False
    from promise_all_removeResource_apigateway [of a ?sel ?w1] obtain us w2 where
      p: "promise_all (map (removeResource apigateway a) ?sel) ?w1 = (Inr us, w2)"
      and g: "gw_resources (remote w2)
         = filter (\<lambda>r. \<forall>ep \<in> set ?sel. Some (resource_id r) \<noteq> endpoint_id ep) ?items"
      by auto
    from False obtain ep where ep: "ep \<in> set endpoints" "removable ?items ep"
      by (auto simp add: filter_empty_conv)
    from removable_childless_unbound [OF ep(2)] obtain r where
      r: "r \<in> set ?items" "Some (resource_id r) = endpoint_id ep"
      by (auto simp add: childless_unbound_def)
    with ep have "\<not> (\<forall>ep \<in> set ?sel. Some (resource_id r) \<noteq> endpoint_id ep)"
      by auto
    with r(1) have "length (gw_resources (remote w2)) < length ?items"
      unfolding g by (rule length_filter_less)
    from less [OF this] obtain y where "removeResources apigateway a endpoints w2 = Some y"
      by auto
    with False p show ?thesis
      by (subst removeResources.simps) (simp add: listing_apigateway Let_def)
  qed
qed

lemma delete_existing_apigateway:
  assumes "\<exists>r \<in> set (gw_resources (remote w)). Some (resource_id r) = rid"
  shows "throttleAwsRequestRequest (call apigateway (DeleteResource a rid)) w
     = (Inr Done,
        w\<lparr>remote := (remote w)\<lparr>gw_resources :=
               filter (\<lambda>r. Some (resource_id r) \<noteq> rid) (gw_resources (remote w))\<rparr>,
          trace := trace w @ [Call (DeleteResource a rid) (Inr Done)]\<rparr>)"
  by (subst throttle_once [where r = "Inr Done"
        and s' = "(remote w)\<lparr>gw_resources :=
               filter (\<lambda>r. Some (resource_id r) \<noteq> rid) (gw_resources (remote w))\<rparr>"])
     (use assms in simp_all)

lemmas pruning_data = root_resource_def a_resource_def b_resource_def a_endpoint_def
  b_endpoint_def path_only_def

lemma pruning_removable:
  "\<not> removable [root_resource, a_resource, b_resource] a_endpoint"
  "removable [root_resource, a_resource, b_resource] b_endpoint"
  "removable [root_resource, a_resource] a_endpoint"
  "\<not> removable [root_resource, a_resource] b_endpoint"
  "\<not> removable [root_resource] a_endpoint"
  "\<not> removable [root_resource] b_endpoint"
  by (simp_all add: removable_def pruning_data)

lemma pruning_run:
  "removeResources apigateway ''api'' [a_endpoint, b_endpoint]
       \<lparr>remote = branch_gateway, trace = []\<rparr>
     = Some (Inr [], \<lparr>remote = root_gateway, trace = pruning_trace\<rparr>)"
proof -
  let ?l3 = "Call (GetResources ''api'') (Inr (Resources [root_resource, a_resource, b_resource]))"
  let ?l2 = "Call (GetResources ''api'') (Inr (Resources [root_resource, a_resource]))"
  let ?l1 = "Call (GetResources ''api'') (Inr (Resources [root_resource]))"
  let ?db = "Call (DeleteResource ''api'' (Some ''rb'')) (Inr Done)"
  let ?da = "Call (DeleteResource ''api'' (Some ''ra'')) (Inr Done)"
  let ?g2 = "\<lparr>gw_resources = [root_resource, a_resource], gw_authorizers = []\<rparr>"
  have idb: "endpoint_id b_endpoint = Some ''rb''" and ida: "endpoint_id a_endpoint = Some ''ra''"
    by (simp_all add: pruning_data)
  have db: "removeResource apigateway ''api'' b_endpoint
              \<lparr>remote = branch_gateway, trace = [?l3]\<rparr>
            = (Inr (), \<lparr>remote = ?g2, trace = [?l3, ?db]\<rparr>)"
    unfolding removeResource_def idb
    by (subst delete_existing_apigateway)
       (simp_all add: branch_gateway_def root_resource_def a_resource_def b_resource_def)
  have da: "removeResource apigateway ''api'' a_endpoint
              \<lparr>remote = ?g2, trace = [?l3, ?db, ?l2]\<rparr>
            = (Inr (), \<lparr>remote = root_gateway, trace = [?l3, ?db, ?l2, ?da]\<rparr>)"
    unfolding removeResource_def ida
    by (subst delete_existing_apigateway)
       (simp_all add: root_gateway_def root_resource_def a_resource_def)
  have p3: "removeResources apigateway ''api'' [a_endpoint, b_endpoint]
              \<lparr>remote = root_gateway, trace = [?l3, ?db, ?l2, ?da]\<rparr>
            = Some (Inr [], \<lparr>remote = root_gateway, trace = pruning_trace\<rparr>)"
    by (subst removeResources.simps)
       (simp add: listing_apigateway root_gateway_def pruning_removable pruning_trace_def)
  have p2: "removeResources apigateway ''api'' [a_endpoint, b_endpoint]
              \<lparr>remote = ?g2, trace = [?l3, ?db]\<rparr>
            = Some (Inr [], \<lparr>remote = root_gateway, trace = pruning_trace\<rparr>)"
    by (subst removeResources.simps) (simp add: listing_apigateway pruning_removable da p3)
  show ?thesis
    by (subst removeResources.simps)
       (simp add: listing_apigateway branch_gateway_def pruning_removable
          db [unfolded branch_gateway_def] p2)
qed

text \<open>
  An instance: the orphaned branch \<open>/a/b\<close> is pruned bottom-up in two passes, and the
  third pass finds nothing left to remove.
\<close>

lemma pruning_first_pass:
  "promise_all (map (removeResource apigateway ''api'')
        (filter (removable [root_resource, a_resource, b_resource]) [a_endpoint, b_endpoint]))
       \<lparr>remote = branch_gateway, trace = take 1 pruning_trace\<rparr>
     = (Inr [()],
        \<lparr>remote = \<lparr>gw_resources = [root_resource, a_resource], gw_authorizers = []\<rparr>,
         trace = take 2 pruning_trace\<rparr>)"
proof -
  have idb: "endpoint_id b_endpoint = Some ''rb''" by (simp add: pruning_data)
  have "removeResource apigateway ''api'' b_endpoint
              \<lparr>remote = branch_gateway, trace = take 1 pruning_trace\<rparr>
            = (Inr (), \<lparr>remote = \<lparr>gw_resources = [root_resource, a_resource],
                                   gw_authorizers = []\<rparr>,
                        trace = take 2 pruning_trace\<rparr>)"
    unfolding removeResource_def idb
    by (subst delete_existing_apigateway)
       (simp_all add: branch_gateway_def root_resource_def a_resource_def b_resource_def
          pruning_trace_def)
  then show ?thesis by (simp add: pruning_removable)
qed

lemma pruning_first_listing:
  "throttleAwsRequestRequest (call apigateway (GetResources ''api''))
       \<lparr>remote = branch_gateway, trace = []\<rparr>
     = (Inr (Resources [root_resource, a_resource, b_resource]),
        \<lparr>remote = branch_gateway, trace = take 1 pruning_trace\<rparr>)"
  by (simp add: listing_apigateway branch_gateway_def pruning_trace_def)

theorem removeResources_deletes_only_childless_unbound_witness:
  "removeResources apigateway ''api'' [a_endpoint, b_endpoint]
       \<lparr>remote = branch_gateway, trace = []\<rparr>
     = Some (Inr [], \<lparr>remote = root_gateway, trace = pruning_trace\<rparr>)
   \<and> deletes_justified None pruning_trace
   \<and> last_listing None pruning_trace = Some [root_resource]
   \<and> filter (removable [root_resource]) [a_endpoint, b_endpoint] = []
   \<and> deletes_justified (Some [root_resource, a_resource, b_resource])
         [Call (DeleteResource ''api'' (Some ''rb'')) (Inr Done)]"
proof -
  note inst = removeResources_deletes_only_childless_unbound
    [where apig = apigateway and apiId = "''api''" and endpoints = "[a_endpoint, b_endpoint]"
       and w = "\<lparr>remote = branch_gateway, trace = []\<rparr>"
       and items = "[root_resource, a_resource, b_resource]"
       and ?w1.0 = "\<lparr>remote = branch_gateway, trace = take 1 pruning_trace\<rparr>"
       and ?r2.0 = "Inr [()]"
       and ?w2.0 = "\<lparr>remote = \<lparr>gw_resources = [root_resource, a_resource],
                                    gw_authorizers = []\<rparr>,
                      trace = take 2 pruning_trace\<rparr>"
       and r = "Inr []" and w' = "\<lparr>remote = root_gateway, trace = pruning_trace\<rparr>"]
  from inst [THEN conjunct2, rule_format, OF pruning_run]
  obtain evs where e: "trace \<lparr>remote = root_gateway, trace = pruning_trace\<rparr>
                         = trace \<lparr>remote = branch_gateway, trace = []\<rparr> @ evs"
    and j: "deletes_justified None evs"
    by blast
  from e have "evs = pruning_trace" by simp
  with j have whole: "deletes_justified None pruning_trace" by simp
  from inst [THEN conjunct1, rule_format, OF conjI [OF pruning_first_listing pruning_first_pass]]
  obtain evs1 where e1: "trace \<lparr>remote = \<lparr>gw_resources = [root_resource, a_resource],
                                    gw_authorizers = []\<rparr>,
                      trace = take 2 pruning_trace\<rparr>
                    = trace \<lparr>remote = branch_gateway, trace = take 1 pruning_trace\<rparr> @ evs1"
    and j1: "deletes_justified (Some [root_resource, a_resource, b_resource]) evs1"
    by blast
  from e1 have "evs1 = [Call (DeleteResource ''api'' (Some ''rb'')) (Inr Done)]"
    by (simp add: pruning_trace_def)
  with j1 have pass: "deletes_justified (Some [root_resource, a_resource, b_resource])
         [Call (DeleteResource ''api'' (Some ''rb'')) (Inr Done)]"
    by simp
  have "last_listing None pruning_trace = Some [root_resource]"
    by (simp add: pruning_trace_def)
  with whole pass show ?thesis
    using pruning_run pruning_removable by simp
qed

end
